theory Spec2Isabelle
  imports Main "HOL-Library.Sublist" "HOL-Library.AList"
begin

section \<open>Strings as the TypeScript code sees them\<close>

text \<open>
  A TypeScript string is modelled as a \<^typ>\<open>string\<close>: one \<^typ>\<open>char\<close> per code unit,
  for the code units \<open>0x00 .. 0xFF\<close>. The character classes below are the ones of the
  regular expressions and of \<open>String.prototype.trim\<close>, restricted to that range.
\<close>

definition isSpace :: "char \<Rightarrow> bool" where
  \<comment> \<open>the class \<open>\s\<close>, and what \<open>trim\<close> strips: TAB, LF, VT, FF, CR, SP, NBSP\<close>
  "isSpace c = (c \<in> set [CHR 0x09, CHR 0x0A, CHR 0x0B, CHR 0x0C, CHR 0x0D, CHR 0x20, CHR 0xA0])"

definition isLineTerminator :: "char \<Rightarrow> bool" where
  \<comment> \<open>what \<open>.\<close> refuses and where \<open>^\<close> and \<open>$\<close> hold under the flag \<open>m\<close>: LF, CR\<close>
  "isLineTerminator c = (c \<in> set [CHR 0x0A, CHR 0x0D])"

definition trim :: "string \<Rightarrow> string" where
  "trim s = rev (dropWhile isSpace (rev (dropWhile isSpace s)))"

definition startsWith :: "string \<Rightarrow> string \<Rightarrow> bool" where
  "startsWith s p = (take (length p) s = p)"

definition endsWith :: "string \<Rightarrow> string \<Rightarrow> bool" where
  "endsWith s p = (length p \<le> length s \<and> drop (length s - length p) s = p)"

fun splitNewline :: "string \<Rightarrow> string list" where
  \<comment> \<open>\<open>s.split("\n")\<close>\<close>
  "splitNewline [] = [[]]"
| "splitNewline (c # cs) =
     (if c = CHR 0x0A then [] # splitNewline cs
      else (case splitNewline cs of [] \<Rightarrow> [[c]] | l # ls \<Rightarrow> (c # l) # ls))"

section \<open>The compiled diagram and the layer tree\<close>

text \<open>
  \<open>Diagram\<close> and its shapes are declared by the external compiler; the fields below are
  the ones the code reads. A collection may be absent (\<open>diagram.layers ?? []\<close>) and an
  entry of it may be null (\<open>if (!layer) continue\<close>), a shape may have no label
  (\<open>"label" in titleShape\<close>).
\<close>

datatype Shape = Shape (s_id: string) (s_label: "string option")

datatype Diagram = Diagram (d_name: string) (d_shapes: "Shape list option")
  (d_layers: "Diagram option list option")
  (d_scenarios: "Diagram option list option")
  (d_steps: "Diagram option list option")

datatype NodeType = Layer | Scenario | Step

datatype LayerNode = LayerNode (n_name: string) (n_path: string) (n_type: NodeType)
  (n_title: "string option") (n_children: "LayerNode list")

definition present :: "'a option list option \<Rightarrow> 'a list" where
  \<comment> \<open>the entries a loop \<open>for (const x of xs ?? []) { if (!x) continue; ... }\<close> reaches\<close>
  "present xs = List.map_filter (\<lambda>x. x) (case xs of None \<Rightarrow> [] | Some ys \<Rightarrow> ys)"

subsection \<open>Titles\<close>

definition stripMdPrefix :: "string \<Rightarrow> string" where
  \<comment> \<open>\<open>label.replace(/^\|md\s*\n?/, "")\<close>: the greedy \<open>\s*\<close> leaves nothing to \<open>\n?\<close>\<close>
  "stripMdPrefix label =
     (if startsWith label ''|md'' then dropWhile isSpace (drop 3 label) else label)"

fun headingGroup :: "string \<Rightarrow> nat \<Rightarrow> string option" where
  \<comment> \<open>\<open>r\<close> follows the hashes; \<open>\s+\<close> gives back one character at a time until
      \<open>(.+)$\<close> finds a character of its line\<close>
  "headingGroup r 0 = None"
| "headingGroup r (Suc k) =
     (let g = takeWhile (\<lambda>c. \<not> isLineTerminator c) (drop (Suc k) r)
      in if g \<noteq> [] then Some g else headingGroup r k)"

definition headingAt :: "string \<Rightarrow> string option" where
  \<comment> \<open>\<open>#+\s+(.+)$\<close> matched at the start of \<open>s\<close>: the captured group\<close>
  "headingAt s =
     (let hashes = takeWhile (\<lambda>c. c = CHR ''#'') s;
          r = dropWhile (\<lambda>c. c = CHR ''#'') s;
          ws = takeWhile isSpace r
      in if hashes = [] \<or> ws = [] then None else headingGroup r (length ws))"

fun headingMatch :: "bool \<Rightarrow> string \<Rightarrow> string option" where
  \<comment> \<open>\<open>content.match(/^#+\s+(.+)$/m)\<close>: the leftmost line start where it matches; the
      flag says whether the position is a line start\<close>
  "headingMatch atStart [] = None"
| "headingMatch atStart (c # cs) =
     (case (if atStart then headingAt (c # cs) else None) of
        Some g \<Rightarrow> Some g
      | None \<Rightarrow> headingMatch (isLineTerminator c) cs)"

definition firstLineOr :: "string \<Rightarrow> string \<Rightarrow> string" where
  \<comment> \<open>\<open>content.split("\n").find((line) => line.trim())?.trim() ?? label\<close>\<close>
  "firstLineOr content label =
     (case find (\<lambda>line. trim line \<noteq> []) (splitNewline content) of
        Some firstLine \<Rightarrow> trim firstLine
      | None \<Rightarrow> label)"

definition extractMarkdownTitle :: "string \<Rightarrow> string" where
  "extractMarkdownTitle label =
     (let content = stripMdPrefix label
      in case headingMatch True content of
           Some g \<Rightarrow> trim g
         | None \<Rightarrow> firstLineOr content label)"

definition isTitleShape :: "Shape \<Rightarrow> bool" where
  "isTitleShape s =
     (if s_id s = ''d2-config'' \<or> startsWith (s_id s) ''d2-config.'' then False
      else s_id s = ''title'' \<or> endsWith (s_id s) ''.title'')"

definition extractTitle :: "Diagram \<Rightarrow> string option" where
  "extractTitle diagram =
     (case find isTitleShape (case d_shapes diagram of None \<Rightarrow> [] | Some ss \<Rightarrow> ss) of
        None \<Rightarrow> None
      | Some titleShape \<Rightarrow>
          (case s_label titleShape of
             None \<Rightarrow> None
           | Some label \<Rightarrow>
               if startsWith label ''|md'' \<or> CHR ''#'' \<in> set label
               then Some (extractMarkdownTitle label)
               else Some label))"

subsection \<open>The layer tree\<close>

definition nodePath :: "string \<Rightarrow> string \<Rightarrow> string \<Rightarrow> string" where
  \<comment> \<open>\<open>parentPath ? `${parentPath}.${name}` : `${keyword}.${name}`\<close>\<close>
  "nodePath keyword parentPath name =
     (if parentPath \<noteq> [] then parentPath @ ''.'' @ name else keyword @ ''.'' @ name)"

definition titleField :: "string option \<Rightarrow> string option" where
  \<comment> \<open>\<open>...(title && { title })\<close>: an empty title is dropped like an absent one\<close>
  "titleField t = (case t of None \<Rightarrow> None | Some s \<Rightarrow> if s = [] then None else Some s)"

lemma present_size:
  "b \<in> set (present xs) \<Longrightarrow> size b < Suc (size_option (size_list (size_option size)) xs)"
  by (cases xs)
    (auto simp: present_def List.map_filter_def size_list_estimation' dest!: split_list)

function extractLayers :: "Diagram \<Rightarrow> string \<Rightarrow> LayerNode list" where
  "extractLayers diagram parentPath =
     map (\<lambda>layer.
         LayerNode (d_name layer) (nodePath ''layers'' parentPath (d_name layer)) Layer
           (titleField (extractTitle layer))
           (extractLayers layer (nodePath ''layers'' parentPath (d_name layer))))
       (present (d_layers diagram))
     @ map (\<lambda>scenario.
         LayerNode (d_name scenario) (nodePath ''scenarios'' parentPath (d_name scenario)) Scenario
           (titleField (extractTitle scenario))
           (extractLayers scenario (nodePath ''scenarios'' parentPath (d_name scenario))))
       (present (d_scenarios diagram))
     @ map (\<lambda>step.
         LayerNode (d_name step) (nodePath ''steps'' parentPath (d_name step)) Step
           (titleField (extractTitle step))
           (extractLayers step (nodePath ''steps'' parentPath (d_name step))))
       (present (d_steps diagram))"
  by pat_completeness auto
termination
proof (relation "measure (\<lambda>(d, p). size d)")
  show "wf (measure (\<lambda>(d, p). size d))" by simp
next
  fix diagram :: Diagram and parentPath :: string and b
  assume "b \<in> set (present (d_layers diagram))"
  then show "((b, nodePath ''layers'' parentPath (d_name b)), diagram, parentPath)
      \<in> measure (\<lambda>(d, p). size d)"
    by (cases diagram) (auto dest!: present_size)
next
  fix diagram :: Diagram and parentPath :: string and b
  assume "b \<in> set (present (d_scenarios diagram))"
  then show "((b, nodePath ''scenarios'' parentPath (d_name b)), diagram, parentPath)
      \<in> measure (\<lambda>(d, p). size d)"
    by (cases diagram) (auto dest!: present_size)
next
  fix diagram :: Diagram and parentPath :: string and b
  assume "b \<in> set (present (d_steps diagram))"
  then show "((b, nodePath ''steps'' parentPath (d_name b)), diagram, parentPath)
      \<in> measure (\<lambda>(d, p). size d)"
    by (cases diagram) (auto dest!: present_size)
qed

declare extractLayers.simps [simp del]

function traverse :: "LayerNode list \<Rightarrow> string list \<Rightarrow> string list" where
  \<comment> \<open>the closure of \<open>flattenTargets\<close>; the array \<open>targets\<close> it pushes to is passed along\<close>
  "traverse [] targets = targets"
| "traverse (node # nodes) targets =
     traverse nodes (traverse (n_children node) (targets @ [n_path node]))"
  by pat_completeness auto
termination
proof (relation "measure (\<lambda>(ns, t). size_list size ns)")
  show "wf (measure (\<lambda>(ns, t). size_list size ns))" by simp
next
  fix node :: LayerNode and nodes :: "LayerNode list" and targets :: "string list"
  show "((n_children node, targets @ [n_path node]), node # nodes, targets)
      \<in> measure (\<lambda>(ns, t). size_list size ns)"
    by (cases node) simp
next
  fix node :: LayerNode and nodes :: "LayerNode list" and targets :: "string list"
  show "((nodes, traverse (n_children node) (targets @ [n_path node])), node # nodes, targets)
      \<in> measure (\<lambda>(ns, t). size_list size ns)"
    by simp
qed

definition flattenTargets :: "LayerNode list \<Rightarrow> string list" where
  "flattenTargets layers = traverse layers []"

subsection \<open>Reference notions for the tree\<close>

text \<open>
  The manual pre-order traversal the flattener is compared with: a node's own path, then the
  traversals of its children from left to right; and the number of tree positions.
\<close>

fun preorder :: "LayerNode \<Rightarrow> string list" where
  "preorder (LayerNode nm p ty ti cs) = p # concat (map preorder cs)"

fun nodeCount :: "LayerNode \<Rightarrow> nat" where
  "nodeCount (LayerNode nm p ty ti cs) = Suc (sum_list (map nodeCount cs))"

text \<open>Layers before scenarios before steps, at a node's children and at every level below.\<close>

fun kindRank :: "NodeType \<Rightarrow> nat" where
  "kindRank Layer = 0"
| "kindRank Scenario = 1"
| "kindRank Step = 2"

fun groupedByKind :: "LayerNode \<Rightarrow> bool" where
  "groupedByKind (LayerNode nm p ty ti cs) =
     (sorted (map (\<lambda>c. kindRank (n_type c)) cs) \<and> list_all groupedByKind cs)"

text \<open>
  The boards of a board in the order of the three collections, their kinds, and what it is
  for a forest to show a board level by level: one node for each of its boards, with the
  kinds and the names in that order, and below each node the same for the node's board.
\<close>

definition boards :: "Diagram \<Rightarrow> Diagram list" where
  "boards d = present (d_layers d) @ present (d_scenarios d) @ present (d_steps d)"

definition kinds :: "Diagram \<Rightarrow> NodeType list" where
  "kinds d =
     replicate (length (present (d_layers d))) Layer
     @ replicate (length (present (d_scenarios d))) Scenario
     @ replicate (length (present (d_steps d))) Step"

function groupedLevels :: "Diagram \<Rightarrow> LayerNode list \<Rightarrow> bool" where
  "groupedLevels d ns =
     (map n_type ns = kinds d \<and> map n_name ns = map d_name (boards d)
      \<and> list_all (\<lambda>(b, n). groupedLevels b (n_children n)) (zip (boards d) ns))"
  by pat_completeness auto
termination
proof (relation "measure (\<lambda>(d, ns). size d)")
  show "wf (measure (\<lambda>(d, ns). size d))" by simp
next
  fix d b :: Diagram and ns :: "LayerNode list" and z n
  assume "z \<in> set (zip (boards d) ns)" and "(b, n) = z"
  then have "b \<in> set (boards d)"
    by (auto dest: set_zip_leftD)
  then show "((b, n_children n), d, ns) \<in> measure (\<lambda>(d, ns). size d)"
    by (cases d) (auto simp: boards_def dest!: present_size)
qed

declare groupedLevels.simps [simp del]

text \<open>The path fields of all the nodes of a forest, and those of the subtree made for a board.\<close>

definition treePaths :: "LayerNode list \<Rightarrow> string list" where
  "treePaths ns = concat (map preorder ns)"

definition subPaths :: "Diagram \<Rightarrow> string \<Rightarrow> string list" where
  "subPaths b q = q # treePaths (extractLayers b q)"

text \<open>
  Board names that keep paths apart: no name has a dot, and below a board the names of its
  layers, scenarios and steps together are pairwise distinct. At the root the collection
  keyword leads the path, so there the names need to differ within each collection only.
\<close>

function wellNamed :: "Diagram \<Rightarrow> bool" where
  "wellNamed d =
     (distinct (map d_name (present (d_layers d) @ present (d_scenarios d) @ present (d_steps d)))
      \<and> list_all (\<lambda>b. CHR ''.'' \<notin> set (d_name b) \<and> wellNamed b)
            (present (d_layers d) @ present (d_scenarios d) @ present (d_steps d)))"
  by pat_completeness auto
termination
proof (relation "measure size")
  show "wf (measure size)" by simp
next
  fix d b :: Diagram
  assume "b \<in> set (present (d_layers d) @ present (d_scenarios d) @ present (d_steps d))"
  then show "(b, d) \<in> measure size"
    by (cases d) (auto dest!: present_size)
qed

declare wellNamed.simps [simp del]

definition wellNamedRoot :: "Diagram \<Rightarrow> bool" where
  "wellNamedRoot d =
     (distinct (map d_name (present (d_layers d)))
      \<and> distinct (map d_name (present (d_scenarios d)))
      \<and> distinct (map d_name (present (d_steps d)))
      \<and> list_all (\<lambda>b. CHR ''.'' \<notin> set (d_name b) \<and> wellNamed b)
            (present (d_layers d) @ present (d_scenarios d) @ present (d_steps d)))"

text \<open>Example boards: a root whose layer \<open>auth\<close> holds the scenario \<open>timeout\<close>.\<close>

definition board_timeout :: Diagram where
  "board_timeout = Diagram ''timeout'' None None None None"

definition board_auth :: Diagram where
  "board_auth = Diagram ''auth'' None None (Some [Some board_timeout]) None"

definition board_root :: Diagram where
  "board_root = Diagram '''' None (Some [Some board_auth]) None None"

text \<open>A root whose layer \<open>a\<close> holds a layer and a scenario that are both named \<open>x\<close>.\<close>

definition board_leaf :: "string \<Rightarrow> Diagram" where
  "board_leaf nm = Diagram nm None None None None"

definition board_clash :: Diagram where
  "board_clash = Diagram '''' None
     (Some [Some (Diagram ''a'' None (Some [Some (board_leaf ''x'')])
                     (Some [Some (board_leaf ''x'')]) None)])
     None None"

text \<open>A board whose title shape has a plain label with a leading blank.\<close>

definition board_titled :: Diagram where
  "board_titled = Diagram ''auth''
     (Some [Shape ''d2-config.title'' (Some ''cfg''), Shape ''box.title'' (Some '' hello'')])
     None None None"

section \<open>The image dimension normalizer\<close>

definition svgTagMatch :: "string \<Rightarrow> string option" where
  \<comment> \<open>\<open>svg.match(/^(<svg\s+[^>]*)(>)/)\<close>: the group \<open>openTag\<close>; the whole match is
      \<open>openTag\<close> and the closing angle bracket\<close>
  "svgTagMatch svg =
     (if startsWith svg ''<svg''
         \<and> (case drop 4 svg of [] \<Rightarrow> False | c # _ \<Rightarrow> isSpace c)
         \<and> CHR ''>'' \<in> set svg
      then Some (takeWhile (\<lambda>c. c \<noteq> CHR ''>'') svg)
      else None)"

fun hasWidth :: "string \<Rightarrow> bool" where
  \<comment> \<open>\<open>/\swidth\s*=/.test(openTag)\<close>\<close>
  "hasWidth [] = False"
| "hasWidth (c # cs) =
     ((isSpace c \<and> startsWith cs ''width''
        \<and> (case dropWhile isSpace (drop 5 cs) of [] \<Rightarrow> False | e # _ \<Rightarrow> e = CHR ''=''))
      \<or> hasWidth cs)"

definition isQuote :: "char \<Rightarrow> bool" where
  \<comment> \<open>the class \<open>["']\<close>\<close>
  "isQuote c = (c = CHR 0x22 \<or> c = CHR 0x27)"

definition viewBoxAt :: "string \<Rightarrow> string option" where
  \<comment> \<open>\<open>viewBox\s*=\s*["']([^"']+)["']\<close> matched at the start of \<open>s\<close>: the group\<close>
  "viewBoxAt s =
     (if startsWith s ''viewBox'' then
        (case dropWhile isSpace (drop 7 s) of
           [] \<Rightarrow> None
         | e # r \<Rightarrow>
             if e \<noteq> CHR ''='' then None
             else (case dropWhile isSpace r of
                     [] \<Rightarrow> None
                   | q # r' \<Rightarrow>
                       if isQuote q \<and> takeWhile (\<lambda>c. \<not> isQuote c) r' \<noteq> []
                          \<and> dropWhile (\<lambda>c. \<not> isQuote c) r' \<noteq> []
                       then Some (takeWhile (\<lambda>c. \<not> isQuote c) r')
                       else None))
      else None)"

fun viewBoxMatch :: "string \<Rightarrow> string option" where
  \<comment> \<open>\<open>openTag.match(...)\<close>: the leftmost position where the pattern matches\<close>
  "viewBoxMatch [] = None"
| "viewBoxMatch (c # cs) =
     (case viewBoxAt (c # cs) of Some g \<Rightarrow> Some g | None \<Rightarrow> viewBoxMatch cs)"

function splitSpaces :: "string \<Rightarrow> string list" where
  \<comment> \<open>\<open>s.split(/\s+/)\<close>: leading or trailing blanks leave an empty first or last field\<close>
  "splitSpaces s =
     (let rest = dropWhile (\<lambda>c. \<not> isSpace c) s
      in if rest = [] then [takeWhile (\<lambda>c. \<not> isSpace c) s]
         else takeWhile (\<lambda>c. \<not> isSpace c) s # splitSpaces (dropWhile isSpace rest))"
  by pat_completeness auto
termination
proof (relation "measure length")
  show "wf (measure length)" by simp
next
  fix s rest :: string
  assume r: "rest = dropWhile (\<lambda>c. \<not> isSpace c) s" and ne: "rest \<noteq> []"
  then have "isSpace (hd rest)"
    using hd_dropWhile [of "\<lambda>c. \<not> isSpace c" s] by simp
  with ne have "length (dropWhile isSpace rest) < length rest"
    by (cases rest) (auto intro: le_imp_less_Suc length_dropWhile_le)
  also have "length rest \<le> length s"
    using r by (simp add: length_dropWhile_le)
  finally show "(dropWhile isSpace rest, s) \<in> measure length" by simp
qed

declare splitSpaces.simps [simp del]

definition element :: "'a list \<Rightarrow> nat \<Rightarrow> 'a option" where
  \<comment> \<open>an array element as destructuring reads it: undefined beyond the end\<close>
  "element xs i = (if i < length xs then Some (xs ! i) else None)"

fun getSubstitution :: "string \<Rightarrow> string \<Rightarrow> string \<Rightarrow> string \<Rightarrow> string" where
  \<comment> \<open>what \<open>String.prototype.replace\<close> makes of a replacement string when the pattern is
      a string: \<open>$$\<close> is a dollar sign, \<open>$&\<close> the matched text, \<open>$`\<close> the text before the
      match and \<open>$'\<close> the text after it; everything else stands for itself\<close>
  "getSubstitution matched preceding following [] = []"
| "getSubstitution matched preceding following [c] = [c]"
| "getSubstitution matched preceding following (c # d # r) =
     (if c = CHR ''$'' \<and> d = CHR ''$''
      then CHR ''$'' # getSubstitution matched preceding following r
      else if c = CHR ''$'' \<and> d = CHR ''&''
      then matched @ getSubstitution matched preceding following r
      else if c = CHR ''$'' \<and> d = CHR 0x60
      then preceding @ getSubstitution matched preceding following r
      else if c = CHR ''$'' \<and> d = CHR 0x27
      then following @ getSubstitution matched preceding following r
      else c # getSubstitution matched preceding following (d # r))"

fun indexOfFrom :: "string \<Rightarrow> string \<Rightarrow> string \<Rightarrow> (string \<times> string) option" where
  \<comment> \<open>the first occurrence of \<open>pat\<close>: the text before it and the text after it\<close>
  "indexOfFrom pat preceding [] = (if pat = [] then Some (preceding, []) else None)"
| "indexOfFrom pat preceding (c # cs) =
     (if startsWith (c # cs) pat then Some (preceding, drop (length pat) (c # cs))
      else indexOfFrom pat (preceding @ [c]) cs)"

definition replaceString :: "string \<Rightarrow> string \<Rightarrow> string \<Rightarrow> string" where
  \<comment> \<open>\<open>s.replace(pat, replacement)\<close> with a string \<open>pat\<close>: the first occurrence only\<close>
  "replaceString s pat replacement =
     (case indexOfFrom pat [] s of
        None \<Rightarrow> s
      | Some (preceding, following) \<Rightarrow>
          preceding @ getSubstitution pat preceding following replacement @ following)"

definition sizeAttributes :: "string \<Rightarrow> string \<Rightarrow> string" where
  \<comment> \<open>what the template adds to \<open>openTag\<close>\<close>
  \<open>sizeAttributes w h = '' width="'' @ w @ ''" height="'' @ h @ ''"''\<close>

definition ensureSvgDimensions :: "string \<Rightarrow> string" where
  "ensureSvgDimensions svg =
     (case svgTagMatch svg of
        None \<Rightarrow> svg
      | Some openTag \<Rightarrow>
          if hasWidth openTag then svg
          else (case viewBoxMatch openTag of
                  None \<Rightarrow> svg
                | Some viewBox \<Rightarrow>
                    (case (element (splitSpaces viewBox) 2, element (splitSpaces viewBox) 3) of
                       (Some w, Some h) \<Rightarrow>
                         if w = [] \<or> h = [] then svg
                         else replaceString svg (openTag @ ''>'')
                                ((openTag @ sizeAttributes w h) @ ''>'')
                     | _ \<Rightarrow> svg)))"

text \<open>Example images.\<close>

definition svg_sample :: string where
  \<open>svg_sample = ''<svg viewBox="0 0 120 80"><g/></svg>''\<close>

definition svg_sample_tag :: string where
  \<open>svg_sample_tag = ''<svg viewBox="0 0 120 80"''\<close>

definition svg_sample_sized :: string where
  \<open>svg_sample_sized = ''<svg viewBox="0 0 120 80" width="120" height="80"><g/></svg>''\<close>

definition svg_short :: string where
  \<open>svg_short = ''<svg viewBox="0 0"><g/></svg>''\<close>

definition svg_short_tag :: string where
  \<open>svg_short_tag = ''<svg viewBox="0 0"''\<close>

definition svg_dollar :: string where
  \<open>svg_dollar = ''<svg viewBox="0 0 1 2" $&>''\<close>

definition svg_dollar_once :: string where
  \<open>svg_dollar_once =
     ''<svg viewBox="0 0 1 2" <svg viewBox="0 0 1 2" $&> width="1" height="2">''\<close>

definition svg_dollar_twice :: string where
  \<open>svg_dollar_twice =
     ''<svg viewBox="0 0 1 2" <svg viewBox="0 0 1 2" <svg viewBox="0 0 1 2" <svg viewBox="0 0 1 2" $&> width="1" height="2"> width="1" height="2">''\<close>

section \<open>The export assembler\<close>

record D2DiagramData =
  title :: string
  layers :: "LayerNode list"
  svgs :: "(string \<times> string) list"

text \<open>
  \<open>svgs\<close> is the object \<open>Record<string, string>\<close> as the list of its entries in the
  order \<open>JSON.stringify\<close> enumerates them.
\<close>

definition replaceAll :: "char \<Rightarrow> string \<Rightarrow> string \<Rightarrow> string" where
  \<comment> \<open>\<open>s.replace(/c/g, r)\<close> for a replacement string \<open>r\<close> without a dollar sign\<close>
  "replaceAll c r s = concat (map (\<lambda>x. if x = c then r else [x]) s)"

subsection \<open>\<open>JSON.stringify\<close> on the exported data\<close>

definition hexDigit :: "nat \<Rightarrow> char" where
  "hexDigit n = ''0123456789abcdef'' ! (n mod 16)"

definition quoteChar :: "char \<Rightarrow> string" where
  \<comment> \<open>one code unit inside a JSON string\<close>
  "quoteChar c =
     (if c = CHR 0x08 then [CHR 0x5C, CHR ''b'']
      else if c = CHR 0x09 then [CHR 0x5C, CHR ''t'']
      else if c = CHR 0x0A then [CHR 0x5C, CHR ''n'']
      else if c = CHR 0x0C then [CHR 0x5C, CHR ''f'']
      else if c = CHR 0x0D then [CHR 0x5C, CHR ''r'']
      else if c = CHR 0x22 then [CHR 0x5C, CHR 0x22]
      else if c = CHR 0x5C then [CHR 0x5C, CHR 0x5C]
      else if (of_char c :: nat) < 0x20
      then [CHR 0x5C, CHR ''u'', CHR ''0'', CHR ''0'',
            hexDigit (of_char c div 16), hexDigit (of_char c)]
      else [c])"

definition quoteJSONString :: "string \<Rightarrow> string" where
  "quoteJSONString s = [CHR 0x22] @ concat (map quoteChar s) @ [CHR 0x22]"

fun joinComma :: "string list \<Rightarrow> string" where
  "joinComma [] = []"
| "joinComma [x] = x"
| "joinComma (x # y # zs) = x @ '','' @ joinComma (y # zs)"

definition typeName :: "NodeType \<Rightarrow> string" where
  "typeName ty = (case ty of Layer \<Rightarrow> ''layer'' | Scenario \<Rightarrow> ''scenario'' | Step \<Rightarrow> ''step'')"

definition jsonField :: "string \<Rightarrow> string \<Rightarrow> string" where
  "jsonField key v = quoteJSONString key @ '':'' @ v"

fun jsonLayerNode :: "LayerNode \<Rightarrow> string" where
  \<comment> \<open>the keys in the order the object literal of \<open>extractLayers\<close> sets them; no key for an
      absent title\<close>
  "jsonLayerNode (LayerNode nm p ty ti cs) =
     ''{'' @ joinComma
       ([jsonField ''name'' (quoteJSONString nm),
         jsonField ''path'' (quoteJSONString p),
         jsonField ''type'' (quoteJSONString (typeName ty))]
        @ (case ti of None \<Rightarrow> [] | Some t \<Rightarrow> [jsonField ''title'' (quoteJSONString t)])
        @ [jsonField ''children'' (''['' @ joinComma (map jsonLayerNode cs) @ '']'')])
     @ ''}''"

definition jsonStringify :: "D2DiagramData \<Rightarrow> string" where
  "jsonStringify data =
     ''{'' @ joinComma
       [jsonField ''title'' (quoteJSONString (title data)),
        jsonField ''layers'' (''['' @ joinComma (map jsonLayerNode (layers data)) @ '']''),
        jsonField ''svgs''
          (''{'' @ joinComma (map (\<lambda>(k, v). jsonField k (quoteJSONString v)) (svgs data)) @ ''}'')]
     @ ''}''"

subsection \<open>The document\<close>

definition escapedData :: "D2DiagramData \<Rightarrow> string" where
  "escapedData data =
     replaceAll (CHR ''&'') (CHR 0x5C # ''u0026'')
       (replaceAll (CHR ''>'') (CHR 0x5C # ''u003e'')
         (replaceAll (CHR ''<'') (CHR 0x5C # ''u003c'') (jsonStringify data)))"

definition escapeHtml :: "string \<Rightarrow> string" where
  "escapeHtml str =
     replaceAll (CHR 0x22) ''&quot;''
       (replaceAll (CHR ''>'') ''&gt;''
         (replaceAll (CHR ''<'') ''&lt;''
           (replaceAll (CHR ''&'') ''&amp;'' str)))"

definition htmlHead :: string where
  \<open>htmlHead = ''<!DOCTYPE html>\<newline><html lang="en">\<newline><head>\<newline>  <meta charset="UTF-8">\<newline>  <meta name="viewport" content="width=device-width, initial-scale=1.0">\<newline>  <title>''\<close>

definition htmlMiddle :: string where
  \<open>htmlMiddle = ''</title>\<newline>  <style>body { background: #1a1a1a; margin: 0; }</style>\<newline></head>\<newline><body>\<newline>  <div id="app"></div>\<newline>  <script>\<newline>    window.D2_DIAGRAM = ''\<close>

definition htmlTail :: string where
  \<open>htmlTail = '';\<newline>  </script>\<newline>  <script src="https://alan-roe.github.io/d2-viewer/d2-viewer.js"></script>\<newline></body>\<newline></html>''\<close>

definition generateHtml :: "D2DiagramData \<Rightarrow> string" where
  "generateHtml data =
     htmlHead @ escapeHtml (title data) @ htmlMiddle @ escapedData data @ htmlTail"

text \<open>What each character of a title becomes, and each character of the payload.\<close>

definition htmlEntity :: "char \<Rightarrow> string" where
  "htmlEntity c =
     (if c = CHR ''&'' then ''&amp;'' else if c = CHR ''<'' then ''&lt;''
      else if c = CHR ''>'' then ''&gt;'' else if c = CHR 0x22 then ''&quot;'' else [c])"

definition unicodeEscape :: "char \<Rightarrow> string" where
  "unicodeEscape c =
     (if c = CHR ''<'' then CHR 0x5C # ''u003c'' else if c = CHR ''>'' then CHR 0x5C # ''u003e''
      else if c = CHR ''&'' then CHR 0x5C # ''u0026'' else [c])"

section \<open>The import resolver\<close>

text \<open>
  The functions of Node's \<open>path\<close> module and the file system are outside the repository:
  the resolver takes them as parameters. \<open>readFile\<close> gives no content where the call
  throws, \<open>access\<close> is false where the call throws.
\<close>

record PathOps =
  resolve :: "string \<Rightarrow> string"
  dirname :: "string \<Rightarrow> string"
  basename :: "string \<Rightarrow> string"
  join :: "string \<Rightarrow> string \<Rightarrow> string"
  relative :: "string \<Rightarrow> string \<Rightarrow> string"

record Disk =
  readFile :: "string \<Rightarrow> string option"
  access :: "string \<Rightarrow> bool"

text \<open>
  What the resolver does besides filling the mapping: its calls of \<open>access\<close> and its two
  warnings, in the order they happen.
\<close>

datatype FsEvent =
    Access string
  | CouldNotRead string
  | ImportNotFound string string

record BuildState =
  fs :: "(string \<times> string) list"
  processed :: "string list"
  events :: "FsEvent list"

definition logged :: "FsEvent \<Rightarrow> BuildState \<Rightarrow> BuildState" where
  "logged e st = st\<lparr>events := events st @ [e]\<rparr>"

definition isRefChar :: "char \<Rightarrow> bool" where
  \<comment> \<open>the class \<open>[^\s\n;{}]\<close>\<close>
  "isRefChar c = (\<not> isSpace c \<and> c \<noteq> CHR '';'' \<and> c \<noteq> CHR ''{'' \<and> c \<noteq> CHR ''}'')"

function importRefs :: "string \<Rightarrow> string list" where
  \<comment> \<open>the groups of the successive matches of \<open>/(?:\.\.\.)?@([^\s\n;{}]+)/g\<close>: each match
      ends where its group ends, and the next search starts there\<close>
  "importRefs [] = []"
| "importRefs (c # cs) =
     (if c = CHR ''@'' \<and> takeWhile isRefChar cs \<noteq> []
      then takeWhile isRefChar cs # importRefs (dropWhile isRefChar cs)
      else importRefs cs)"
  by pat_completeness auto
termination
  by (relation "measure length") (auto intro: le_imp_less_Suc length_dropWhile_le)

definition importPathOf :: "PathOps \<Rightarrow> string \<Rightarrow> string \<Rightarrow> string" where
  \<comment> \<open>\<open>join(currentDir, importRef)\<close>, with \<open>.d2\<close> added unless it ends with it\<close>
  "importPathOf ops currentDir importRef =
     (if endsWith (join ops currentDir importRef) ''.d2'' then join ops currentDir importRef
      else join ops currentDir importRef @ ''.d2'')"

text \<open>
  \<open>processFile\<close> and the loop over the references of a file. The first argument bounds
  the depth of the recursion; \<open>None\<close> is the answer of a run that would go deeper.
  \<open>processFile\<close> catches the failure of \<open>readFile\<close> and throws nothing, so each \<open>catch\<close> of
  the loop is entered by a failing \<open>access\<close> only.
\<close>

fun processFile ::
    "nat \<Rightarrow> PathOps \<Rightarrow> Disk \<Rightarrow> string \<Rightarrow> string \<Rightarrow> BuildState \<Rightarrow> BuildState option"
  and processImports ::
    "nat \<Rightarrow> PathOps \<Rightarrow> Disk \<Rightarrow> string \<Rightarrow> string \<Rightarrow> string \<Rightarrow> string list \<Rightarrow> BuildState
      \<Rightarrow> BuildState option"
where
  "processFile 0 ops disk baseDir filePath st = None"
| "processFile (Suc n) ops disk baseDir filePath st =
     (let normalizedPath = resolve ops filePath
      in if normalizedPath \<in> set (processed st) then Some st
         else (case readFile disk normalizedPath of
                 None \<Rightarrow>
                   Some (logged (CouldNotRead normalizedPath)
                     (st\<lparr>processed := normalizedPath # processed st\<rparr>))
               | Some content \<Rightarrow>
                   processImports n ops disk baseDir normalizedPath
                     (relative ops baseDir normalizedPath) (importRefs content)
                     (st\<lparr>processed := normalizedPath # processed st,
                         fs := AList.update (relative ops baseDir normalizedPath) content (fs st)\<rparr>)))"
| "processImports n ops disk baseDir normalizedPath relativePath [] st = Some st"
| "processImports n ops disk baseDir normalizedPath relativePath (importRef # refs) st =
     (let currentDir = dirname ops normalizedPath;
          importPath = importPathOf ops currentDir importRef;
          altPath = join ops currentDir importRef
      in if access disk importPath then
           (case processFile n ops disk baseDir importPath (logged (Access importPath) st) of
              None \<Rightarrow> None
            | Some st' \<Rightarrow> processImports n ops disk baseDir normalizedPath relativePath refs st')
         else if access disk altPath then
           (case processFile n ops disk baseDir altPath
                   (logged (Access altPath) (logged (Access importPath) st)) of
              None \<Rightarrow> None
            | Some st' \<Rightarrow> processImports n ops disk baseDir normalizedPath relativePath refs st')
         else processImports n ops disk baseDir normalizedPath relativePath refs
                (logged (ImportNotFound importRef relativePath)
                  (logged (Access altPath) (logged (Access importPath) st))))"

definition buildFileSystem :: "nat \<Rightarrow> PathOps \<Rightarrow> Disk \<Rightarrow> string \<Rightarrow> BuildState option" where
  "buildFileSystem n ops disk entryPath =
     processFile n ops disk (dirname ops entryPath) entryPath
       \<lparr>fs = [], processed = [], events = []\<rparr>"

text \<open>
  The two paths the loop tries for a reference of the file \<open>normalizedPath\<close>, and what it
  logs for a reference it gives up: both attempts, then the warning.
\<close>

definition firstAttempt :: "PathOps \<Rightarrow> string \<Rightarrow> string \<Rightarrow> string" where
  \<comment> \<open>\<open>importPath\<close> for a reference of the file \<open>normalizedPath\<close>\<close>
  "firstAttempt ops normalizedPath importRef =
     importPathOf ops (dirname ops normalizedPath) importRef"

definition secondAttempt :: "PathOps \<Rightarrow> string \<Rightarrow> string \<Rightarrow> string" where
  \<comment> \<open>\<open>altPath\<close> for a reference of the file \<open>normalizedPath\<close>\<close>
  "secondAttempt ops normalizedPath importRef = join ops (dirname ops normalizedPath) importRef"

definition abandoned :: "PathOps \<Rightarrow> string \<Rightarrow> string \<Rightarrow> string \<Rightarrow> FsEvent list" where
  "abandoned ops normalizedPath relativePath importRef =
     [Access (firstAttempt ops normalizedPath importRef),
      Access (secondAttempt ops normalizedPath importRef),
      ImportNotFound importRef relativePath]"

text \<open>
  Path functions for the examples: what \<open>resolve\<close>, \<open>dirname\<close>, \<open>basename\<close>, \<open>join\<close> and
  \<open>relative\<close> return on the absolute path of a file in a directory other than the root,
  without dot segments or doubled or trailing slashes, for references without dot segments
  or a leading slash, and for a base directory that the path lies under.
\<close>

definition plainDirname :: "string \<Rightarrow> string" where
  "plainDirname p = rev (drop 1 (dropWhile (\<lambda>c. c \<noteq> CHR ''/'') (rev p)))"

definition plainBasename :: "string \<Rightarrow> string" where
  "plainBasename p = rev (takeWhile (\<lambda>c. c \<noteq> CHR ''/'') (rev p))"

definition plainPaths :: PathOps where
  "plainPaths = \<lparr>resolve = (\<lambda>p. p), dirname = plainDirname, basename = plainBasename,
     join = (\<lambda>d r. d @ ''/'' @ r), relative = (\<lambda>base p. drop (Suc (length base)) p)\<rparr>"

text \<open>A disk with the single file \<open>/r/a.d2\<close>, which imports \<open>b\<close>.\<close>

definition disk_single :: Disk where
  "disk_single =
     \<lparr>readFile = (\<lambda>p. if p = ''/r/a.d2'' then Some ''...@b'' else None),
      access = (\<lambda>p. p = ''/r/a.d2'')\<rparr>"

text \<open>
  A disk with \<open>/r/main.d2\<close>, which imports \<open>sub/x\<close>; \<open>/r/sub/x.d2\<close>, which imports \<open>lib/y\<close>;
  and \<open>/r/lib/y.d2\<close>: the last import resolves against the root and not against \<open>/r/sub\<close>.
\<close>

definition disk_nested :: Disk where
  "disk_nested =
     \<lparr>readFile = (\<lambda>p. if p = ''/r/main.d2'' then Some ''...@sub/x''
                       else if p = ''/r/sub/x.d2'' then Some ''...@lib/y''
                       else if p = ''/r/lib/y.d2'' then Some ''y: leaf''
                       else None),
      access = (\<lambda>p. p \<in> set [''/r/main.d2'', ''/r/sub/x.d2'', ''/r/lib/y.d2''])\<rparr>"

text \<open>
  A disk with \<open>/r/main.d2\<close>, which imports \<open>sub/x\<close>; \<open>/r/sub/x.d2\<close>, which imports \<open>y.txt\<close>;
  and \<open>/r/sub/y.txt\<close>, which the second attempt finds beside the importing file.
\<close>

definition disk_retry :: Disk where
  "disk_retry =
     \<lparr>readFile = (\<lambda>p. if p = ''/r/main.d2'' then Some ''...@sub/x''
                       else if p = ''/r/sub/x.d2'' then Some ''...@y.txt''
                       else if p = ''/r/sub/y.txt'' then Some ''y: leaf''
                       else None),
      access = (\<lambda>p. p \<in> set [''/r/main.d2'', ''/r/sub/x.d2'', ''/r/sub/y.txt''])\<rparr>"

text \<open>
  States of the resolver on these disks: in the loop of \<open>/r/sub/x.d2\<close>, and as \<open>/r/main.d2\<close>
  goes into \<open>/r/sub/x.d2\<close>.
\<close>

definition state_x :: "string \<Rightarrow> BuildState" where
  "state_x content =
     \<lparr>fs = [(''main.d2'', ''...@sub/x''), (''sub/x.d2'', content)],
      processed = [''/r/sub/x.d2'', ''/r/main.d2''],
      events = [Access ''/r/sub/x.d2'']\<rparr>"

definition state_main :: BuildState where
  "state_main =
     \<lparr>fs = [(''main.d2'', ''...@sub/x'')], processed = [''/r/main.d2''],
      events = [Access ''/r/sub/x.d2'']\<rparr>"

section \<open>The export run\<close>

text \<open>
  The compiler, the renderer and the write of the output file are outside the repository.
  \<open>compile\<close> takes the file set, the input path and the options; \<open>render\<close> takes the
  diagram, the render options of the compile response (to which the script adds
  \<open>center\<close>, \<open>pad\<close> and \<open>noXMLTag\<close>) and the target. A call that throws gives its error;
  \<open>writeFile\<close> gives \<open>None\<close> when it has written the file.
\<close>

record ('e, 'o, 'r) World =
  compile :: "(string \<times> string) list \<Rightarrow> string \<Rightarrow> 'o \<Rightarrow> 'e + Diagram \<times> 'r"
  render :: "Diagram \<Rightarrow> 'r \<Rightarrow> string \<Rightarrow> 'e + string"
  writeFile :: "string \<Rightarrow> string \<Rightarrow> 'e option"

text \<open>The constants the script computes from its command line.\<close>

record 'o Args =
  inputPath :: string
  outputPath :: string
  docTitle :: string
  options :: 'o

fun renderTargets ::
    "(string \<Rightarrow> 'e + string) \<Rightarrow> string list \<Rightarrow> (string \<times> string) list
      \<Rightarrow> 'e + (string \<times> string) list" where
  \<comment> \<open>the loop \<open>for (const target of targets)\<close>: the first error leaves it\<close>
  "renderTargets renderTarget [] svgMap = Inr svgMap"
| "renderTargets renderTarget (target # targets) svgMap =
     (case renderTarget target of
        Inl e \<Rightarrow> Inl e
      | Inr svg \<Rightarrow>
          renderTargets renderTarget targets
            (AList.update target (ensureSvgDimensions svg) svgMap))"

definition main ::
    "nat \<Rightarrow> PathOps \<Rightarrow> Disk \<Rightarrow> ('e, 'o, 'r) World \<Rightarrow> 'o Args
      \<Rightarrow> (('e + unit) \<times> (string \<times> string) list) option" where
  \<comment> \<open>the error \<open>main\<close> throws or its normal return, and the files it has written;
      \<open>None\<close> when the import resolver exceeds its bound\<close>
  "main n ops disk world args =
     (case buildFileSystem n ops disk (inputPath args) of
        None \<Rightarrow> None
      | Some st \<Rightarrow>
          Some (case compile world (fs st) (basename ops (inputPath args)) (options args) of
            Inl e \<Rightarrow> (Inl e, [])
          | Inr (diagram, renderOptions) \<Rightarrow>
              (case render world diagram renderOptions '''' of
                 Inl e \<Rightarrow> (Inl e, [])
               | Inr rootSvg \<Rightarrow>
                   (case renderTargets (render world diagram renderOptions)
                           (flattenTargets (extractLayers diagram ''''))
                           [('''', ensureSvgDimensions rootSvg)] of
                      Inl e \<Rightarrow> (Inl e, [])
                    | Inr svgMap \<Rightarrow>
                        (case writeFile world (outputPath args)
                                (generateHtml \<lparr>title = docTitle args,
                                   layers = extractLayers diagram '''', svgs = svgMap\<rparr>) of
                           Some e \<Rightarrow> (Inl e, [])
                         | None \<Rightarrow>
                             (Inr (),
                              [(outputPath args,
                                generateHtml \<lparr>title = docTitle args,
                                  layers = extractLayers diagram '''', svgs = svgMap\<rparr>)]))))))"

text \<open>The error of the first call that failed, in a list of results.\<close>

fun firstError :: "('e + 'a) list \<Rightarrow> 'e option" where
  "firstError [] = None"
| "firstError (Inl e # rs) = Some e"
| "firstError (Inr a # rs) = firstError rs"

text \<open>
  A compiler that returns the example diagram, a renderer that fails on the target
  \<open>layers.auth.timeout\<close>, and the arguments of a run on \<open>/r/a.d2\<close>.
\<close>

definition world_failing :: "(string, unit, unit) World" where
  "world_failing =
     \<lparr>compile = (\<lambda>files path opts. Inr (board_root, ())),
      render = (\<lambda>diagram ro target.
        if target = ''layers.auth.timeout'' then Inl ''render failed'' else Inr svg_sample),
      writeFile = (\<lambda>path content. None)\<rparr>"

definition args_sample :: "unit Args" where
  "args_sample =
     \<lparr>inputPath = ''/r/a.d2'', outputPath = ''/r/a.html'', docTitle = ''a'', options = ()\<rparr>"

section \<open>Properties of the layer tree\<close>

lemma present_simps [simp]:
  "present None = []"
  "present (Some []) = []"
  "present (Some (None # xs)) = present (Some xs)"
  "present (Some (Some x # xs)) = x # present (Some xs)"
  by (simp_all add: present_def List.map_filter_def)

lemma extractLayers_leaf: "extractLayers (Diagram nm sh None None None) p = []"
  by (subst extractLayers.simps) simp

subsection \<open>The flattener\<close>

lemma traverse_append: "traverse ns acc = acc @ concat (map preorder ns)"
proof (induction ns acc rule: traverse.induct)
  case (1 targets)
  show ?case by simp
next
  case (2 node nodes targets)
  then show ?case by (cases node) simp
qed

lemma length_preorder: "length (preorder n) = nodeCount n"
proof (induction n rule: preorder.induct)
  case (1 nm p ty ti cs)
  then show ?case by (simp add: length_concat comp_def cong: map_cong)
qed

text \<open>
  C3. For every forest, \<open>flattenTargets\<close> returns the paths of all nodes in depth-first
  pre-order: the list is the manual pre-order traversal, it has one element per tree
  position, and a node's path comes first, then the paths of its descendants, then the
  paths of the trees to its right.
\<close>

theorem flattenTargets_preorder:
  "flattenTargets forest = concat (map preorder forest)
   \<and> length (flattenTargets forest) = sum_list (map nodeCount forest)
   \<and> flattenTargets (LayerNode nm p ty ti cs # rest)
       = p # flattenTargets cs @ flattenTargets rest"
  by (simp add: flattenTargets_def traverse_append length_concat comp_def length_preorder)

subsection \<open>Grouping by kind\<close>

lemma extractLayers_types:
  "map n_type (extractLayers d p) =
     replicate (length (present (d_layers d))) Layer
     @ replicate (length (present (d_scenarios d))) Scenario
     @ replicate (length (present (d_steps d))) Step"
  by (subst extractLayers.simps) (simp add: comp_def map_replicate_const)

lemma extractLayers_names:
  "map n_name (extractLayers d p) =
     map d_name (present (d_layers d)) @ map d_name (present (d_scenarios d))
     @ map d_name (present (d_steps d))"
  by (subst extractLayers.simps) (simp add: comp_def)

lemma extractLayers_sorted: "sorted (map (\<lambda>c. kindRank (n_type c)) (extractLayers d p))"
proof -
  have "map (\<lambda>c. kindRank (n_type c)) (extractLayers d p)
      = map kindRank (map n_type (extractLayers d p))"
    by (simp add: comp_def)
  then show ?thesis
    by (simp add: extractLayers_types sorted_append map_replicate)
qed

lemma extractLayers_grouped: "list_all groupedByKind (extractLayers d p)"
proof (induction d p rule: extractLayers.induct)
  case (1 diagram parentPath)
  have "list_all groupedByKind
          (map (\<lambda>b. LayerNode (d_name b) (f b) ty (g b) (extractLayers b (f b))) bs)"
    if "\<And>b. b \<in> set bs \<Longrightarrow> list_all groupedByKind (extractLayers b (f b))"
    for bs ty g and f :: "Diagram \<Rightarrow> string"
    using that by (simp add: list_all_iff extractLayers_sorted)
  then show ?case
    by (subst extractLayers.simps) (simp add: 1)
qed

lemma extractLayers_children:
  "map n_children (extractLayers d p) =
     map (\<lambda>b. extractLayers b (nodePath ''layers'' p (d_name b))) (present (d_layers d))
     @ map (\<lambda>b. extractLayers b (nodePath ''scenarios'' p (d_name b))) (present (d_scenarios d))
     @ map (\<lambda>b. extractLayers b (nodePath ''steps'' p (d_name b))) (present (d_steps d))"
  by (subst extractLayers.simps) (simp add: comp_def)

lemma list_all_zip_map:
  "list_all P (zip xs (map f xs)) = list_all (\<lambda>x. P (x, f x)) xs"
  by (induction xs) simp_all

lemma list_all_zip_append:
  "length xs = length ys \<Longrightarrow>
     list_all P (zip (xs @ xs') (ys @ ys')) = (list_all P (zip xs ys) \<and> list_all P (zip xs' ys'))"
  by (auto simp: list_all_iff)

lemma extractLayers_levels: "groupedLevels d (extractLayers d p)"
proof (induction d p rule: extractLayers.induct)
  case (1 diagram parentPath)
  have sub: "list_all (\<lambda>(b, n). groupedLevels b (n_children n))
          (zip bs (map (\<lambda>b. LayerNode (d_name b) (f b) ty (g b) (extractLayers b (f b))) bs))"
    if "\<And>b. b \<in> set bs \<Longrightarrow> groupedLevels b (extractLayers b (f b))"
    for bs ty g and f :: "Diagram \<Rightarrow> string"
    using that by (subst list_all_zip_map) (simp add: list_all_iff)
  have "list_all (\<lambda>(b, n). groupedLevels b (n_children n))
          (zip (boards diagram) (extractLayers diagram parentPath))"
    unfolding boards_def
    by (subst extractLayers.simps) (simp add: list_all_zip_append sub 1)
  then show ?case
    by (subst groupedLevels.simps)
      (simp add: extractLayers_types extractLayers_names kinds_def boards_def)
qed

text \<open>
  A forest that leaves out the children of a node does not show the board level by level.
\<close>

lemma groupedLevels_needs_children:
  "\<not> groupedLevels board_root [LayerNode ''auth'' ''layers.auth'' Layer None []]"
proof
  assume "groupedLevels board_root [LayerNode ''auth'' ''layers.auth'' Layer None []]"
  then have "groupedLevels board_auth []"
    by (subst (asm) groupedLevels.simps)
      (simp add: boards_def board_root_def present_def List.map_filter_def)
  then show False
    by (subst (asm) groupedLevels.simps)
      (simp add: kinds_def board_auth_def present_def List.map_filter_def)
qed

text \<open>
  C10. At every level of the tree \<open>extractLayers\<close> emits the children grouped by kind. For
  every board and every parent path, the kinds of the nodes are all layers, then all
  scenarios, then all steps, one node per non-null entry; the names are those of the
  entries in the order of each collection; and the children of each node are what
  \<open>extractLayers\<close> returns for the node's own board under the node's path, so that the same
  holds for them. Hence no scenario comes before a layer and no step before a scenario at
  any node, and the whole forest shows the board level by level.
\<close>

theorem extractLayers_grouped_by_kind:
  "map n_type (extractLayers d p) =
     replicate (length (present (d_layers d))) Layer
     @ replicate (length (present (d_scenarios d))) Scenario
     @ replicate (length (present (d_steps d))) Step
   \<and> map n_name (extractLayers d p) =
     map d_name (present (d_layers d)) @ map d_name (present (d_scenarios d))
     @ map d_name (present (d_steps d))
   \<and> map n_children (extractLayers d p) =
     map (\<lambda>b. extractLayers b (nodePath ''layers'' p (d_name b))) (present (d_layers d))
     @ map (\<lambda>b. extractLayers b (nodePath ''scenarios'' p (d_name b))) (present (d_scenarios d))
     @ map (\<lambda>b. extractLayers b (nodePath ''steps'' p (d_name b))) (present (d_steps d))
   \<and> list_all groupedByKind (extractLayers d p)
   \<and> groupedLevels d (extractLayers d p)"
  using extractLayers_types extractLayers_names extractLayers_children extractLayers_grouped
    extractLayers_levels
  by blast

subsection \<open>Paths of nested nodes\<close>

lemma extractLayers_layer_node:
  assumes "layer \<in> set (present (d_layers diagram))"
  shows "LayerNode (d_name layer) (nodePath ''layers'' parentPath (d_name layer)) Layer
           (titleField (extractTitle layer))
           (extractLayers layer (nodePath ''layers'' parentPath (d_name layer)))
         \<in> set (extractLayers diagram parentPath)"
  using assms by (subst extractLayers.simps) auto

lemma extractLayers_scenario_node:
  assumes "scenario \<in> set (present (d_scenarios diagram))"
  shows "LayerNode (d_name scenario) (nodePath ''scenarios'' parentPath (d_name scenario)) Scenario
           (titleField (extractTitle scenario))
           (extractLayers scenario (nodePath ''scenarios'' parentPath (d_name scenario)))
         \<in> set (extractLayers diagram parentPath)"
  using assms by (subst extractLayers.simps) auto

lemma extractLayers_board_root:
  "extractLayers board_root '''' = [LayerNode ''auth'' ''layers.auth'' Layer None
     [LayerNode ''timeout'' ''layers.auth.timeout'' Scenario None []]]"
  unfolding board_root_def board_auth_def board_timeout_def
  apply (subst extractLayers.simps)
  apply (subst extractLayers.simps)
  apply (simp add: extractLayers_leaf nodePath_def extractTitle_def titleField_def)
  done

text \<open>
  C1, as stated: the scenario \<open>timeout\<close> nested under the root layer \<open>auth\<close> gets the path
  \<open>layers.auth.scenarios.timeout\<close>. It does not: below the root the path is the parent's
  path, a dot and the name; no node of the tree has the stated path.
\<close>

theorem extractLayers_auth_timeout_counterexample:
  "board_auth \<in> set (present (d_layers board_root)) \<and> d_name board_auth = ''auth''
   \<and> board_timeout \<in> set (present (d_scenarios board_auth))
   \<and> d_name board_timeout = ''timeout''
   \<and> extractLayers board_root '''' =
       [LayerNode ''auth'' ''layers.auth'' Layer None
          [LayerNode ''timeout'' ''layers.auth.timeout'' Scenario None []]]
   \<and> ''layers.auth.scenarios.timeout'' \<notin> set (flattenTargets (extractLayers board_root ''''))"
  by (simp add: extractLayers_board_root flattenTargets_def)
    (simp add: board_root_def board_auth_def board_timeout_def)

text \<open>
  C1, amended: for every compiled diagram with a root-level layer named \<open>auth\<close> and a
  scenario named \<open>timeout\<close> nested under it, \<open>extractLayers\<close> makes a layer node with path
  \<open>layers.auth\<close> whose children are the nodes of that layer, and among them a scenario node
  with path \<open>layers.auth.timeout\<close>: the collection keyword leads the path of a root-level
  node only.
\<close>

theorem extractLayers_auth_timeout:
  assumes "layer \<in> set (present (d_layers diagram))" and "d_name layer = ''auth''"
    and "scenario \<in> set (present (d_scenarios layer))" and "d_name scenario = ''timeout''"
  shows "\<exists>n \<in> set (extractLayers diagram ''''). \<exists>c \<in> set (n_children n).
           n_name n = ''auth'' \<and> n_type n = Layer \<and> n_path n = ''layers.auth''
           \<and> n_children n = extractLayers layer ''layers.auth''
           \<and> n_name c = ''timeout'' \<and> n_type c = Scenario
           \<and> n_path c = ''layers.auth.timeout''
           \<and> n_children c = extractLayers scenario ''layers.auth.timeout''"
proof -
  let ?n = "LayerNode ''auth'' ''layers.auth'' Layer (titleField (extractTitle layer))
              (extractLayers layer ''layers.auth'')"
  let ?c = "LayerNode ''timeout'' ''layers.auth.timeout'' Scenario
              (titleField (extractTitle scenario))
              (extractLayers scenario ''layers.auth.timeout'')"
  have "?n \<in> set (extractLayers diagram '''')"
    using extractLayers_layer_node [OF assms(1), of "''''"] assms(2)
    by (simp add: nodePath_def)
  moreover have "?c \<in> set (n_children ?n)"
    using extractLayers_scenario_node [OF assms(3), of "''layers.auth''"] assms(4)
    by (simp add: nodePath_def)
  ultimately show ?thesis
    by (intro bexI [of _ ?n] bexI [of _ ?c]) simp_all
qed

theorem extractLayers_auth_timeout_witness:
  "\<exists>n \<in> set (extractLayers board_root ''''). \<exists>c \<in> set (n_children n).
     n_name n = ''auth'' \<and> n_type n = Layer \<and> n_path n = ''layers.auth''
     \<and> n_children n = extractLayers board_auth ''layers.auth''
     \<and> n_name c = ''timeout'' \<and> n_type c = Scenario
     \<and> n_path c = ''layers.auth.timeout''
     \<and> n_children c = extractLayers board_timeout ''layers.auth.timeout''"
  by (rule extractLayers_auth_timeout)
    (simp_all add: board_root_def board_auth_def board_timeout_def)

subsection \<open>Uniqueness of paths\<close>

lemma treePaths_nested:
  assumes "p \<noteq> []"
  shows "treePaths (extractLayers d p) =
     concat (map (\<lambda>b. subPaths b (p @ ''.'' @ d_name b))
       (present (d_layers d) @ present (d_scenarios d) @ present (d_steps d)))"
  using assms
  by (subst extractLayers.simps) (simp add: treePaths_def subPaths_def nodePath_def comp_def)

lemma treePaths_root:
  "treePaths (extractLayers d []) =
     concat (map (\<lambda>b. subPaths b (''layers.'' @ d_name b)) (present (d_layers d)))
     @ concat (map (\<lambda>b. subPaths b (''scenarios.'' @ d_name b)) (present (d_scenarios d)))
     @ concat (map (\<lambda>b. subPaths b (''steps.'' @ d_name b)) (present (d_steps d)))"
  by (subst extractLayers.simps) (simp add: treePaths_def subPaths_def nodePath_def comp_def)

lemma treePaths_extend:
  "p \<noteq> [] \<Longrightarrow> q \<in> set (treePaths (extractLayers d p)) \<Longrightarrow> \<exists>s. q = p @ CHR ''.'' # s"
proof (induction d p arbitrary: q rule: extractLayers.induct)
  case (1 diagram parentPath)
  let ?bs = "present (d_layers diagram) @ present (d_scenarios diagram) @ present (d_steps diagram)"
  from "1.prems" obtain b where b: "b \<in> set ?bs"
    and q: "q \<in> set (subPaths b (parentPath @ ''.'' @ d_name b))"
    by (auto simp: treePaths_nested)
  let ?q = "parentPath @ ''.'' @ d_name b"
  show ?case
  proof (cases "q = ?q")
    case True
    then show ?thesis by simp
  next
    case False
    with q have mem: "q \<in> set (treePaths (extractLayers b ?q))"
      by (simp add: subPaths_def)
    have "\<exists>s. q = ?q @ CHR ''.'' # s"
      using b "1.prems"(1) mem
      by (auto simp: nodePath_def dest: "1.IH")
    then show ?thesis by auto
  qed
qed

lemma subPaths_shape:
  assumes "q \<in> set (subPaths b (pre @ d_name b))" and "pre \<noteq> []"
  shows "\<exists>t. q = pre @ d_name b @ t \<and> (t = [] \<or> hd t = CHR ''.'')"
proof (cases "q = pre @ d_name b")
  case True
  then show ?thesis by simp
next
  case False
  with assms have "q \<in> set (treePaths (extractLayers b (pre @ d_name b)))"
    by (simp add: subPaths_def)
  with assms(2) obtain s where "q = (pre @ d_name b) @ CHR ''.'' # s"
    using treePaths_extend [of "pre @ d_name b" q b] by auto
  then show ?thesis by simp
qed

lemma dotfree_prefix_unique:
  assumes "n1 @ t1 = n2 @ t2" and "CHR ''.'' \<notin> set n1" and "CHR ''.'' \<notin> set n2"
    and "t1 = [] \<or> hd t1 = CHR ''.''" and "t2 = [] \<or> hd t2 = CHR ''.''"
  shows "n1 = n2"
proof -
  have tw: "takeWhile (\<lambda>c. c \<noteq> CHR ''.'') (n @ t) = n"
    if "CHR ''.'' \<notin> set n" and "t = [] \<or> hd t = CHR ''.''" for n t :: string
  proof -
    from that(2) have "takeWhile (\<lambda>c. c \<noteq> CHR ''.'') t = []" by (cases t) auto
    with that(1) show ?thesis by (induction n) auto
  qed
  have "takeWhile (\<lambda>c. c \<noteq> CHR ''.'') (n1 @ t1) = takeWhile (\<lambda>c. c \<noteq> CHR ''.'') (n2 @ t2)"
    using assms(1) by simp
  then show ?thesis
    using tw assms(2-5) by metis
qed

lemma distinct_subPaths:
  assumes "pre \<noteq> []"
    and "distinct (map d_name bs)"
    and "\<And>b. b \<in> set bs \<Longrightarrow> CHR ''.'' \<notin> set (d_name b)"
    and "\<And>b. b \<in> set bs \<Longrightarrow> distinct (subPaths b (pre @ d_name b))"
  shows "distinct (concat (map (\<lambda>b. subPaths b (pre @ d_name b)) bs))"
  using assms(2-4)
proof (induction bs)
  case Nil
  show ?case by simp
next
  case (Cons b bs)
  have disj: "q \<notin> set (subPaths b' (pre @ d_name b'))"
    if "q \<in> set (subPaths b (pre @ d_name b))" and "b' \<in> set bs" for q b'
  proof
    assume "q \<in> set (subPaths b' (pre @ d_name b'))"
    then obtain t' where t': "q = pre @ d_name b' @ t'" "t' = [] \<or> hd t' = CHR ''.''"
      using subPaths_shape assms(1) by blast
    from that(1) obtain t where t: "q = pre @ d_name b @ t" "t = [] \<or> hd t = CHR ''.''"
      using subPaths_shape assms(1) by blast
    from t t' have "d_name b @ t = d_name b' @ t'" by simp
    then have "d_name b = d_name b'"
      using dotfree_prefix_unique t(2) t'(2) Cons.prems(2) that(2) by (metis list.set_intros)
    with Cons.prems(1) that(2) show False by auto
  qed
  have "distinct (concat (map (\<lambda>b. subPaths b (pre @ d_name b)) bs))"
    using Cons by simp
  then show ?case
    using Cons.prems(3) disj by auto
qed

lemma distinct_nested:
  "p \<noteq> [] \<Longrightarrow> wellNamed d \<Longrightarrow> distinct (treePaths (extractLayers d p))"
proof (induction d p rule: extractLayers.induct)
  case (1 diagram parentPath)
  let ?bs = "present (d_layers diagram) @ present (d_scenarios diagram) @ present (d_steps diagram)"
  from "1.prems"(2) have names: "distinct (map d_name ?bs)"
    and sub: "\<And>b. b \<in> set ?bs \<Longrightarrow> CHR ''.'' \<notin> set (d_name b) \<and> wellNamed b"
    by (subst (asm) wellNamed.simps, simp add: list_all_iff del: set_append map_append)+
  have each: "distinct (subPaths b ((parentPath @ ''.'') @ d_name b))" if b: "b \<in> set ?bs" for b
  proof -
    let ?q = "parentPath @ ''.'' @ d_name b"
    have "distinct (treePaths (extractLayers b ?q))"
      using b sub [OF b] by (auto simp: nodePath_def "1.prems"(1) dest: "1.IH")
    moreover have "?q \<notin> set (treePaths (extractLayers b ?q))"
      using treePaths_extend [of ?q ?q b] by auto
    ultimately show ?thesis by (simp add: subPaths_def)
  qed
  have "distinct (concat (map (\<lambda>b. subPaths b ((parentPath @ ''.'') @ d_name b)) ?bs))"
    by (rule distinct_subPaths) (use names sub each in auto)
  then show ?case
    using "1.prems"(1) by (simp add: treePaths_nested del: map_append)
qed

lemma distinct_subPaths_each:
  assumes "q \<noteq> []" and "wellNamed b"
  shows "distinct (subPaths b q)"
proof -
  have "q \<notin> set (treePaths (extractLayers b q))"
    using treePaths_extend [of q q b] assms(1) by auto
  then show ?thesis
    using distinct_nested [OF assms] by (simp add: subPaths_def)
qed

lemma distinct_group:
  assumes "pre \<noteq> []" and "distinct (map d_name bs)"
    and "\<And>b. b \<in> set bs \<Longrightarrow> CHR ''.'' \<notin> set (d_name b) \<and> wellNamed b"
  shows "distinct (concat (map (\<lambda>b. subPaths b (pre @ d_name b)) bs))"
  using assms by (intro distinct_subPaths distinct_subPaths_each) auto

lemma group_prefix:
  assumes "q \<in> set (concat (map (\<lambda>b. subPaths b (pre @ d_name b)) bs))" and "pre \<noteq> []"
  shows "\<exists>r. q = pre @ r"
proof -
  from assms(1) obtain b where "q \<in> set (subPaths b (pre @ d_name b))" by auto
  then obtain t where "q = pre @ d_name b @ t"
    using subPaths_shape [OF _ assms(2)] by blast
  then show ?thesis by simp
qed

lemma distinct_root:
  assumes "wellNamedRoot d"
  shows "distinct (treePaths (extractLayers d ''''))"
proof -
  let ?L = "concat (map (\<lambda>b. subPaths b (''layers.'' @ d_name b)) (present (d_layers d)))"
  let ?S = "concat (map (\<lambda>b. subPaths b (''scenarios.'' @ d_name b)) (present (d_scenarios d)))"
  let ?T = "concat (map (\<lambda>b. subPaths b (''steps.'' @ d_name b)) (present (d_steps d)))"
  from assms have ok: "\<And>b. b \<in> set (present (d_layers d)) \<union> set (present (d_scenarios d))
        \<union> set (present (d_steps d)) \<Longrightarrow> CHR ''.'' \<notin> set (d_name b) \<and> wellNamed b"
    and dl: "distinct (map d_name (present (d_layers d)))"
    and ds: "distinct (map d_name (present (d_scenarios d)))"
    and dt: "distinct (map d_name (present (d_steps d)))"
    by (auto simp: wellNamedRoot_def list_all_iff)
  have L: "distinct ?L" by (rule distinct_group) (use dl ok in auto)
  have S: "distinct ?S" by (rule distinct_group) (use ds ok in auto)
  have T: "distinct ?T" by (rule distinct_group) (use dt ok in auto)
  have pl: "\<exists>r. q = ''layers.'' @ r" if "q \<in> set ?L" for q
    using group_prefix [OF that] by simp
  have ps: "\<exists>r. q = ''scenarios.'' @ r" if "q \<in> set ?S" for q
    using group_prefix [OF that] by simp
  have pt: "\<exists>r. q = ''steps.'' @ r" if "q \<in> set ?T" for q
    using group_prefix [OF that] by simp
  have "set ?L \<inter> set ?S = {}"
    using pl ps by fastforce
  moreover have "set ?L \<inter> set ?T = {}"
    using pl pt by fastforce
  moreover have "set ?S \<inter> set ?T = {}"
    using ps pt by fastforce
  ultimately show ?thesis
    using L S T by (simp add: treePaths_root Int_Un_distrib)
qed

lemma wellNamed_leaf: "wellNamed (Diagram nm sh None None None)"
  by (subst wellNamed.simps) simp

lemma wellNamedRoot_board_root: "wellNamedRoot board_root"
  unfolding wellNamedRoot_def board_root_def board_auth_def board_timeout_def
  by simp (subst wellNamed.simps, simp add: wellNamed_leaf)

lemma extractLayers_board_clash:
  "extractLayers board_clash '''' =
     [LayerNode ''a'' ''layers.a'' Layer None
        [LayerNode ''x'' ''layers.a.x'' Layer None [],
         LayerNode ''x'' ''layers.a.x'' Scenario None []]]"
  unfolding board_clash_def board_leaf_def
  apply (subst extractLayers.simps)
  apply (subst extractLayers.simps)
  apply (simp add: extractLayers_leaf nodePath_def extractTitle_def titleField_def)
  done

text \<open>
  C2, as stated: the paths of the tree are pairwise distinct for every compiled diagram.
  They are not: a layer and a scenario of the same name under the same parent get the
  same path.
\<close>

theorem extractLayers_paths_distinct_counterexample:
  "treePaths (extractLayers board_clash '''') = [''layers.a'', ''layers.a.x'', ''layers.a.x'']
   \<and> \<not> distinct (treePaths (extractLayers board_clash ''''))"
  by (simp add: extractLayers_board_clash treePaths_def)

text \<open>
  C2, amended: the paths of the tree are pairwise distinct for every compiled diagram in
  which no board name has a dot, the names within each root collection are pairwise
  distinct, and below the root the names of the layers, scenarios and steps of one parent
  are pairwise distinct across the three collections.
\<close>

theorem extractLayers_paths_distinct:
  assumes "wellNamedRoot d"
  shows "distinct (treePaths (extractLayers d ''''))"
  using assms by (rule distinct_root)

theorem extractLayers_paths_distinct_witness:
  "wellNamedRoot board_root \<and> distinct (treePaths (extractLayers board_root ''''))"
  using extractLayers_paths_distinct [of board_root] wellNamedRoot_board_root by simp

subsection \<open>Titles of plain labels\<close>

text \<open>
  C7, as stated: for a label with neither the markdown marker nor a heading marker the
  title is the first non-empty line of the label, trimmed. It is not: such a label is
  returned as it is, here with its leading blank.
\<close>

theorem extractTitle_plain_label_counterexample:
  "find isTitleShape (case d_shapes board_titled of None \<Rightarrow> [] | Some ss \<Rightarrow> ss)
     = Some (Shape ''box.title'' (Some '' hello''))
   \<and> \<not> startsWith '' hello'' ''|md'' \<and> CHR ''#'' \<notin> set '' hello''
   \<and> extractTitle board_titled = Some '' hello''
   \<and> firstLineOr '' hello'' '' hello'' = ''hello''
   \<and> extractTitle board_titled \<noteq> Some (firstLineOr '' hello'' '' hello'')"
  by (simp add: extractTitle_def board_titled_def isTitleShape_def startsWith_def endsWith_def
      firstLineOr_def trim_def isSpace_def)

text \<open>
  C7, amended: for every node whose matched title shape has a label that neither begins
  with the markdown marker nor contains a heading marker, the extracted title is the raw
  label, unchanged.
\<close>

theorem extractTitle_plain_label:
  assumes "find isTitleShape (case d_shapes diagram of None \<Rightarrow> [] | Some ss \<Rightarrow> ss)
             = Some titleShape"
    and "s_label titleShape = Some label"
    and "\<not> startsWith label ''|md''" and "CHR ''#'' \<notin> set label"
  shows "extractTitle diagram = Some label"
  using assms by (simp add: extractTitle_def)

theorem extractTitle_plain_label_witness:
  "extractTitle board_titled = Some '' hello''"
  by (rule extractTitle_plain_label [where titleShape = "Shape ''box.title'' (Some '' hello'')"])
    (simp_all add: board_titled_def isTitleShape_def startsWith_def endsWith_def)

section \<open>Properties of the image dimension normalizer\<close>

lemma getSubstitution_plain:
  "CHR ''$'' \<notin> set t \<Longrightarrow> getSubstitution m b a t = t"
  by (induction m b a t rule: getSubstitution.induct) auto

lemma indexOfFrom_prefix:
  "pat \<noteq> [] \<Longrightarrow> indexOfFrom pat pre (pat @ rest) = Some (pre, rest)"
  by (cases pat) (simp_all add: startsWith_def)

lemma replaceString_prefix:
  assumes "pat \<noteq> []" and "CHR ''$'' \<notin> set t"
  shows "replaceString (pat @ rest) pat t = t @ rest"
  using assms by (simp add: replaceString_def indexOfFrom_prefix getSubstitution_plain)

lemma takeWhile_upto:
  "c \<notin> set xs \<Longrightarrow> takeWhile (\<lambda>x. x \<noteq> c) (xs @ c # rest) = xs"
  by (induction xs) auto

lemma svgTagMatch_Some:
  assumes "svgTagMatch svg = Some openTag"
  shows "svg = openTag @ ''>'' @ drop (Suc (length openTag)) svg"
    and "CHR ''>'' \<notin> set openTag"
proof -
  let ?d = "dropWhile (\<lambda>c. c \<noteq> CHR ''>'') svg"
  from assms have ot: "openTag = takeWhile (\<lambda>c. c \<noteq> CHR ''>'') svg"
    and mem: "CHR ''>'' \<in> set svg"
    by (auto simp: svgTagMatch_def split: if_splits)
  from mem have ne: "?d \<noteq> []"
    by (simp add: dropWhile_eq_Nil_conv)
  then have "hd ?d = CHR ''>''"
    using hd_dropWhile [of "\<lambda>c. c \<noteq> CHR ''>''" svg] by simp
  with ne have dw: "?d = CHR ''>'' # tl ?d"
    by (cases ?d) auto
  have "svg = openTag @ ?d"
    by (simp add: ot)
  then have "svg = openTag @ CHR ''>'' # tl ?d"
    using dw by simp
  then show "svg = openTag @ ''>'' @ drop (Suc (length openTag)) svg"
    by (metis append.simps(1,2) append_eq_conv_conj drop_Suc tl_drop list.sel(3))
  show "CHR ''>'' \<notin> set openTag"
    unfolding ot by (auto dest: set_takeWhileD)
qed

lemma viewBoxAt_chars:
  assumes "viewBoxAt s = Some g"
  shows "set g \<subseteq> set s"
proof -
  from assms obtain r q r' where a: "dropWhile isSpace (drop 7 s) = CHR ''='' # r"
    and b: "dropWhile isSpace r = q # r'"
    and g: "g = takeWhile (\<lambda>c. \<not> isQuote c) r'"
    by (auto simp: viewBoxAt_def split: if_splits list.splits)
  have "set g \<subseteq> set r'"
    unfolding g by (auto dest: set_takeWhileD)
  also have "\<dots> \<subseteq> set (dropWhile isSpace r)"
    unfolding b by auto
  also have "\<dots> \<subseteq> set r"
    by (auto dest: set_dropWhileD)
  also have "\<dots> \<subseteq> set (dropWhile isSpace (drop 7 s))"
    unfolding a by auto
  also have "\<dots> \<subseteq> set (drop 7 s)"
    by (auto dest: set_dropWhileD)
  also have "\<dots> \<subseteq> set s"
    by (rule set_drop_subset)
  finally show ?thesis .
qed

lemma viewBoxMatch_chars: "viewBoxMatch s = Some g \<Longrightarrow> set g \<subseteq> set s"
proof (induction s)
  case Nil
  then show ?case by simp
next
  case (Cons a s)
  show ?case
  proof (cases "viewBoxAt (a # s)")
    case None
    with Cons show ?thesis by auto
  next
    case (Some g')
    with Cons.prems have "viewBoxAt (a # s) = Some g" by simp
    then show ?thesis by (rule viewBoxAt_chars)
  qed
qed

lemma splitSpaces_last:
  assumes "dropWhile (\<lambda>c. \<not> isSpace c) s = []"
  shows "splitSpaces s = [takeWhile (\<lambda>c. \<not> isSpace c) s]"
  by (subst splitSpaces.simps) (simp only: Let_def assms if_True simp_thms)

lemma splitSpaces_more:
  assumes "dropWhile (\<lambda>c. \<not> isSpace c) s \<noteq> []"
  shows "splitSpaces s = takeWhile (\<lambda>c. \<not> isSpace c) s
           # splitSpaces (dropWhile isSpace (dropWhile (\<lambda>c. \<not> isSpace c) s))"
  by (subst splitSpaces.simps) (simp only: Let_def assms if_False simp_thms)

lemma splitSpaces_chars: "f \<in> set (splitSpaces s) \<Longrightarrow> set f \<subseteq> set s"
proof (induction s rule: splitSpaces.induct)
  case (1 s)
  let ?rest = "dropWhile (\<lambda>c. \<not> isSpace c) s"
  have tw: "set (takeWhile (\<lambda>c. \<not> isSpace c) s) \<subseteq> set s"
    by (auto dest: set_takeWhileD)
  show ?case
  proof (cases "?rest = []")
    case True
    from "1.prems" have "f = takeWhile (\<lambda>c. \<not> isSpace c) s"
      by (simp only: splitSpaces_last [OF True] list.set insert_iff empty_iff simp_thms)
    with tw show ?thesis by simp
  next
    case False
    from "1.prems" have "f \<in> set (takeWhile (\<lambda>c. \<not> isSpace c) s
        # splitSpaces (dropWhile isSpace ?rest))"
      by (simp only: splitSpaces_more [OF False])
    then consider "f = takeWhile (\<lambda>c. \<not> isSpace c) s"
      | "f \<in> set (splitSpaces (dropWhile isSpace ?rest))"
      by (simp only: list.set insert_iff) blast
    then show ?thesis
    proof cases
      case 1
      with tw show ?thesis by simp
    next
      case 2
      then have "set f \<subseteq> set (dropWhile isSpace ?rest)"
        by (rule "1.IH" [OF refl False])
      also have "\<dots> \<subseteq> set ?rest"
        by (rule subsetI) (erule set_dropWhileD)
      also have "\<dots> \<subseteq> set s"
        by (rule subsetI) (erule set_dropWhileD)
      finally show ?thesis .
    qed
  qed
qed

lemma element_chars:
  assumes "element (splitSpaces s) i = Some f"
  shows "set f \<subseteq> set s"
proof -
  from assms have "f \<in> set (splitSpaces s)"
    by (auto simp: element_def split: if_splits)
  then show ?thesis by (rule splitSpaces_chars)
qed

lemma sizeAttributes_chars:
  "set (sizeAttributes w h) \<subseteq> set w \<union> set h \<union> set '' width=height'' \<union> {CHR 0x22}"
  by (auto simp: sizeAttributes_def)

lemma ensureSvgDimensions_insert:
  assumes m: "svgTagMatch svg = Some openTag" and nw: "\<not> hasWidth openTag"
    and vb: "viewBoxMatch openTag = Some viewBox"
    and w: "element (splitSpaces viewBox) 2 = Some w"
    and h: "element (splitSpaces viewBox) 3 = Some h"
    and ne: "w \<noteq> []" "h \<noteq> []"
    and nd: "CHR ''$'' \<notin> set openTag"
  shows "ensureSvgDimensions svg =
     openTag @ sizeAttributes w h @ ''>'' @ drop (Suc (length openTag)) svg"
proof -
  let ?rest = "drop (Suc (length openTag)) svg"
  let ?t = "(openTag @ sizeAttributes w h) @ ''>''"
  have svg: "svg = (openTag @ ''>'') @ ?rest"
    using svgTagMatch_Some(1) [OF m] by simp
  have "set w \<subseteq> set openTag" "set h \<subseteq> set openTag"
    using element_chars [OF w] element_chars [OF h] viewBoxMatch_chars [OF vb] by auto
  with nd have t: "CHR ''$'' \<notin> set ?t"
    using sizeAttributes_chars [of w h] by auto
  have "ensureSvgDimensions svg = replaceString svg (openTag @ ''>'') ?t"
    using ne by (simp add: ensureSvgDimensions_def m nw vb w h)
  also have "\<dots> = replaceString ((openTag @ ''>'') @ ?rest) (openTag @ ''>'') ?t"
    using svg by simp
  also have "\<dots> = ?t @ ?rest"
    by (rule replaceString_prefix [OF _ t]) simp
  finally show ?thesis by simp
qed

text \<open>
  C5, as stated: whenever the outer tag is matched, has no width and carries a viewBox,
  the width and height are inserted. They are not when the viewBox has fewer than four
  fields: the outer tag of the image below is matched, has no width and carries the
  viewBox \<open>0 0\<close>, and the image is returned unchanged.
\<close>

theorem ensureSvgDimensions_cases_counterexample:
  "svgTagMatch svg_short = Some svg_short_tag \<and> \<not> hasWidth svg_short_tag
   \<and> viewBoxMatch svg_short_tag = Some ''0 0''
   \<and> splitSpaces ''0 0'' = [''0'', ''0'']
   \<and> ensureSvgDimensions svg_short = svg_short"
  by code_simp

text \<open>
  C5, amended: for every input string, \<open>ensureSvgDimensions\<close> returns the input unchanged
  when the outer tag is not matched, when the outer tag (the text up to the first closing
  angle bracket) has a width attribute, when it has no viewBox, and when the viewBox has no
  non-empty third or fourth field. Otherwise, for an outer tag without a dollar sign, it
  returns the input with the width and height attributes, copied from the third and fourth
  fields of the viewBox, inserted immediately before the closing angle bracket of the
  outer tag.
\<close>

theorem ensureSvgDimensions_cases:
  "(svgTagMatch svg = None \<longrightarrow> ensureSvgDimensions svg = svg)
   \<and> (\<forall>openTag. svgTagMatch svg = Some openTag \<and> hasWidth openTag
         \<longrightarrow> ensureSvgDimensions svg = svg)
   \<and> (\<forall>openTag. svgTagMatch svg = Some openTag \<and> viewBoxMatch openTag = None
         \<longrightarrow> ensureSvgDimensions svg = svg)
   \<and> (\<forall>openTag viewBox. svgTagMatch svg = Some openTag \<and> viewBoxMatch openTag = Some viewBox
         \<and> (element (splitSpaces viewBox) 2 \<in> {None, Some []}
              \<or> element (splitSpaces viewBox) 3 \<in> {None, Some []})
         \<longrightarrow> ensureSvgDimensions svg = svg)
   \<and> (\<forall>openTag viewBox w h. svgTagMatch svg = Some openTag \<and> \<not> hasWidth openTag
         \<and> viewBoxMatch openTag = Some viewBox
         \<and> element (splitSpaces viewBox) 2 = Some w \<and> element (splitSpaces viewBox) 3 = Some h
         \<and> w \<noteq> [] \<and> h \<noteq> [] \<and> CHR ''$'' \<notin> set openTag
         \<longrightarrow> svg = openTag @ ''>'' @ drop (Suc (length openTag)) svg
           \<and> ensureSvgDimensions svg =
               openTag @ sizeAttributes w h @ ''>'' @ drop (Suc (length openTag)) svg)"
proof (intro conjI allI impI)
  assume "svgTagMatch svg = None"
  then show "ensureSvgDimensions svg = svg"
    by (simp add: ensureSvgDimensions_def)
next
  fix openTag
  assume "svgTagMatch svg = Some openTag \<and> hasWidth openTag"
  then show "ensureSvgDimensions svg = svg"
    by (simp add: ensureSvgDimensions_def)
next
  fix openTag
  assume "svgTagMatch svg = Some openTag \<and> viewBoxMatch openTag = None"
  then show "ensureSvgDimensions svg = svg"
    by (simp add: ensureSvgDimensions_def)
next
  fix openTag viewBox
  assume "svgTagMatch svg = Some openTag \<and> viewBoxMatch openTag = Some viewBox
         \<and> (element (splitSpaces viewBox) 2 \<in> {None, Some []}
              \<or> element (splitSpaces viewBox) 3 \<in> {None, Some []})"
  then show "ensureSvgDimensions svg = svg"
    by (auto simp: ensureSvgDimensions_def split: option.splits)
next
  fix openTag viewBox w h
  assume a: "svgTagMatch svg = Some openTag \<and> \<not> hasWidth openTag
         \<and> viewBoxMatch openTag = Some viewBox
         \<and> element (splitSpaces viewBox) 2 = Some w \<and> element (splitSpaces viewBox) 3 = Some h
         \<and> w \<noteq> [] \<and> h \<noteq> [] \<and> CHR ''$'' \<notin> set openTag"
  then show "svg = openTag @ ''>'' @ drop (Suc (length openTag)) svg"
    using svgTagMatch_Some(1) by blast
  from a show "ensureSvgDimensions svg =
               openTag @ sizeAttributes w h @ ''>'' @ drop (Suc (length openTag)) svg"
    using ensureSvgDimensions_insert by blast
qed

theorem ensureSvgDimensions_cases_witness:
  "ensureSvgDimensions svg_sample = svg_sample_sized"
proof -
  have "svgTagMatch svg_sample = Some svg_sample_tag" by code_simp
  moreover have "\<not> hasWidth svg_sample_tag" by code_simp
  moreover have "viewBoxMatch svg_sample_tag = Some ''0 0 120 80''" by code_simp
  moreover have "element (splitSpaces ''0 0 120 80'') 2 = Some ''120''" by code_simp
  moreover have "element (splitSpaces ''0 0 120 80'') 3 = Some ''80''" by code_simp
  moreover have "CHR ''$'' \<notin> set svg_sample_tag" by code_simp
  ultimately have "ensureSvgDimensions svg_sample =
      svg_sample_tag @ sizeAttributes ''120'' ''80''
        @ ''>'' @ drop (Suc (length svg_sample_tag)) svg_sample"
    using ensureSvgDimensions_cases [of svg_sample] by blast
  also have "\<dots> = svg_sample_sized" by code_simp
  finally show ?thesis .
qed

subsection \<open>Applying the normalizer twice\<close>

lemma hasWidth_appended: "hasWidth (a @ sizeAttributes w h)"
  by (induction a) (simp_all add: sizeAttributes_def isSpace_def startsWith_def)

lemma svgTagMatch_extended:
  assumes m: "svgTagMatch svg = Some openTag" and a: "CHR ''>'' \<notin> set a"
  shows "svgTagMatch (openTag @ a @ ''>'' @ rest) = Some (openTag @ a)"
proof -
  from m have sw: "startsWith svg ''<svg''"
    and sp: "(case drop 4 svg of [] \<Rightarrow> False | c # _ \<Rightarrow> isSpace c)"
    and ot: "openTag = takeWhile (\<lambda>c. c \<noteq> CHR ''>'') svg"
    by (auto simp: svgTagMatch_def split: if_splits)
  from sp obtain c r where d4: "drop 4 svg = c # r" and c: "isSpace c"
    by (auto split: list.splits)
  from sw have "take 4 svg = ''<svg''"
    by (simp add: startsWith_def eval_nat_numeral)
  with d4 have svg: "svg = ''<svg'' @ c # r"
    by (metis append_take_drop_id)
  from c have cne: "c \<noteq> CHR ''>''"
    by (auto simp: isSpace_def)
  have ot': "openTag = ''<svg'' @ c # takeWhile (\<lambda>c. c \<noteq> CHR ''>'') r"
    unfolding ot by (subst svg) (simp add: cne)
  have "CHR ''>'' \<notin> set (openTag @ a)"
    using svgTagMatch_Some(2) [OF m] a by simp
  then have "takeWhile (\<lambda>c. c \<noteq> CHR ''>'') ((openTag @ a) @ CHR ''>'' # rest) = openTag @ a"
    by (rule takeWhile_upto)
  moreover have "startsWith (openTag @ a @ ''>'' @ rest) ''<svg''"
    by (simp add: ot' startsWith_def)
  moreover have "drop 4 (openTag @ a @ ''>'' @ rest)
      = c # takeWhile (\<lambda>c. c \<noteq> CHR ''>'') r @ a @ ''>'' @ rest"
    by (simp add: ot')
  ultimately show ?thesis
    using c by (simp add: svgTagMatch_def)
qed

lemma ensureSvgDimensions_idempotent_plain:
  assumes nd: "CHR ''$'' \<notin> set (takeWhile (\<lambda>c. c \<noteq> CHR ''>'') svg)"
  shows "ensureSvgDimensions (ensureSvgDimensions svg) = ensureSvgDimensions svg"
proof (cases "ensureSvgDimensions svg = svg")
  case True
  then show ?thesis by simp
next
  case False
  then obtain openTag viewBox w h where m: "svgTagMatch svg = Some openTag"
    and nw: "\<not> hasWidth openTag" and vb: "viewBoxMatch openTag = Some viewBox"
    and w: "element (splitSpaces viewBox) 2 = Some w"
    and h: "element (splitSpaces viewBox) 3 = Some h"
    and ne: "w \<noteq> []" "h \<noteq> []"
    by (auto simp: ensureSvgDimensions_def split: option.splits if_splits)
  from m have ot: "openTag = takeWhile (\<lambda>c. c \<noteq> CHR ''>'') svg"
    by (auto simp: svgTagMatch_def split: if_splits)
  let ?rest = "drop (Suc (length openTag)) svg"
  have r: "ensureSvgDimensions svg = openTag @ sizeAttributes w h @ ''>'' @ ?rest"
    using ensureSvgDimensions_insert [OF m nw vb w h ne] nd ot by simp
  have ng: "CHR ''>'' \<notin> set openTag"
    by (rule svgTagMatch_Some(2) [OF m])
  have "set w \<subseteq> set openTag" "set h \<subseteq> set openTag"
    using element_chars [OF w] element_chars [OF h] viewBoxMatch_chars [OF vb] by auto
  with ng have "CHR ''>'' \<notin> set (sizeAttributes w h)"
    using sizeAttributes_chars [of w h] by auto
  then have m': "svgTagMatch (openTag @ sizeAttributes w h @ ''>'' @ ?rest)
      = Some (openTag @ sizeAttributes w h)"
    by (rule svgTagMatch_extended [OF m])
  have "hasWidth (openTag @ sizeAttributes w h)"
    by (rule hasWidth_appended)
  with m' have "ensureSvgDimensions (openTag @ sizeAttributes w h @ ''>'' @ ?rest)
      = openTag @ sizeAttributes w h @ ''>'' @ ?rest"
    by (simp add: ensureSvgDimensions_def)
  with r show ?thesis by simp
qed

text \<open>
  C6. The normalizer is meant to be idempotent: it returns an image that has a width
  unchanged, and the viewer applies it again to images it has already normalized. It is
  idempotent on every image whose outer tag has no dollar sign
  (\<open>ensureSvgDimensions_idempotent_plain\<close>), and not in general: the replacement string
  is built from the outer tag and handed to \<open>replace\<close>, which expands \<open>$&\<close> in it. On the
  image below the second application changes the result of the first.
\<close>

theorem ensureSvgDimensions_not_idempotent:
  "ensureSvgDimensions svg_dollar = svg_dollar_once
   \<and> ensureSvgDimensions svg_dollar_once = svg_dollar_twice
   \<and> ensureSvgDimensions (ensureSvgDimensions svg_dollar) \<noteq> ensureSvgDimensions svg_dollar"
  by code_simp

section \<open>Properties of the export assembler\<close>

lemma replaceAll_Nil [simp]: "replaceAll c r [] = []"
  by (simp add: replaceAll_def)

lemma replaceAll_Cons:
  "replaceAll c r (x # s) = (if x = c then r else [x]) @ replaceAll c r s"
  by (simp add: replaceAll_def)

lemma replaceAll_append: "replaceAll c r (s @ t) = replaceAll c r s @ replaceAll c r t"
  by (simp add: replaceAll_def)

lemma escapeHtml_Cons: "escapeHtml (x # s) = htmlEntity x @ escapeHtml s"
  by (simp add: escapeHtml_def htmlEntity_def replaceAll_Cons replaceAll_append)

lemma escapeHtml_entities: "escapeHtml s = concat (map htmlEntity s)"
  by (induction s) (simp_all add: escapeHtml_Cons, simp add: escapeHtml_def)

lemma escapeUnicode_Cons:
  "replaceAll (CHR ''&'') (CHR 0x5C # ''u0026'')
     (replaceAll (CHR ''>'') (CHR 0x5C # ''u003e'')
       (replaceAll (CHR ''<'') (CHR 0x5C # ''u003c'') (x # s)))
   = unicodeEscape x @
     replaceAll (CHR ''&'') (CHR 0x5C # ''u0026'')
       (replaceAll (CHR ''>'') (CHR 0x5C # ''u003e'')
         (replaceAll (CHR ''<'') (CHR 0x5C # ''u003c'') s))"
  by (simp add: unicodeEscape_def replaceAll_Cons replaceAll_append)

lemma escapeUnicode_all:
  "replaceAll (CHR ''&'') (CHR 0x5C # ''u0026'')
     (replaceAll (CHR ''>'') (CHR 0x5C # ''u003e'')
       (replaceAll (CHR ''<'') (CHR 0x5C # ''u003c'') s))
   = concat (map unicodeEscape s)"
  by (induction s) (simp_all add: escapeUnicode_Cons del: replaceAll_Nil, simp)

lemma filter_absent: "c \<notin> set s \<Longrightarrow> filter (\<lambda>x. x = c) s = []"
  by (induction s) auto

lemma htmlEntity_chars:
  "CHR ''<'' \<notin> set (htmlEntity c) \<and> CHR ''>'' \<notin> set (htmlEntity c) \<and> CHR 0x22 \<notin> set (htmlEntity c)"
  by (simp add: htmlEntity_def)

lemma unicodeEscape_chars:
  "CHR ''<'' \<notin> set (unicodeEscape c) \<and> CHR ''>'' \<notin> set (unicodeEscape c)
   \<and> CHR ''&'' \<notin> set (unicodeEscape c)"
  by (simp add: unicodeEscape_def)

text \<open>
  C8. For every diagram data value the payload embedded by \<open>generateHtml\<close> is the
  serialized data with every \<open><\<close>, \<open>>\<close> and \<open>&\<close> replaced by its unicode escape, so it
  has none of the three characters; the title in the head is the title with every \<open>&\<close>,
  \<open><\<close>, \<open>>\<close> and double quote replaced by its entity (once: the ampersand of an entity is
  not escaped again), so it has no angle bracket and no double quote; the document is the
  fixed markup around these two, and every \<open><\<close> of the document is one of the fixed markup;
  and the title \<open><script>\<close> comes out as \<open>&lt;script&gt;\<close>.
\<close>

theorem generateHtml_escapes:
  "escapedData data = concat (map unicodeEscape (jsonStringify data))
   \<and> CHR ''<'' \<notin> set (escapedData data) \<and> CHR ''>'' \<notin> set (escapedData data)
   \<and> CHR ''&'' \<notin> set (escapedData data)
   \<and> escapeHtml (title data) = concat (map htmlEntity (title data))
   \<and> CHR ''<'' \<notin> set (escapeHtml (title data)) \<and> CHR ''>'' \<notin> set (escapeHtml (title data))
   \<and> CHR 0x22 \<notin> set (escapeHtml (title data))
   \<and> generateHtml data
       = htmlHead @ escapeHtml (title data) @ htmlMiddle @ escapedData data @ htmlTail
   \<and> filter (\<lambda>c. c = CHR ''<'') (generateHtml data)
       = filter (\<lambda>c. c = CHR ''<'') (htmlHead @ htmlMiddle @ htmlTail)
   \<and> escapeHtml ''<script>'' = ''&lt;script&gt;''"
proof -
  have e: "escapedData data = concat (map unicodeEscape (jsonStringify data))"
    by (simp only: escapedData_def escapeUnicode_all)
  have h: "escapeHtml (title data) = concat (map htmlEntity (title data))"
    by (rule escapeHtml_entities)
  have "CHR ''<'' \<notin> set (escapedData data)" "CHR ''>'' \<notin> set (escapedData data)"
    "CHR ''&'' \<notin> set (escapedData data)"
    unfolding e using unicodeEscape_chars by auto
  moreover have "CHR ''<'' \<notin> set (escapeHtml (title data))"
    "CHR ''>'' \<notin> set (escapeHtml (title data))" "CHR 0x22 \<notin> set (escapeHtml (title data))"
    unfolding h using htmlEntity_chars by auto
  moreover have "escapeHtml ''<script>'' = ''&lt;script&gt;''"
    by (simp add: escapeHtml_entities htmlEntity_def)
  ultimately show ?thesis
    using e h by (simp add: generateHtml_def filter_absent)
qed

section \<open>Properties of the import resolver\<close>

lemma processImports_abandon:
  assumes "\<not> access disk (firstAttempt ops np importRef)"
    and "\<not> access disk (secondAttempt ops np importRef)"
  shows "processImports n ops disk baseDir np rel (importRef # refs) st =
     processImports n ops disk baseDir np rel refs
       (st\<lparr>events := events st @ abandoned ops np rel importRef\<rparr>)"
  using assms
  by (simp add: Let_def logged_def firstAttempt_def secondAttempt_def abandoned_def)

lemma processImports_retry:
  assumes "\<not> access disk (firstAttempt ops np importRef)"
    and "access disk (secondAttempt ops np importRef)"
  shows "processImports n ops disk baseDir np rel (importRef # refs) st =
     (case processFile n ops disk baseDir (secondAttempt ops np importRef)
             (st\<lparr>events := events st @ [Access (firstAttempt ops np importRef),
                                         Access (secondAttempt ops np importRef)]\<rparr>) of
        None \<Rightarrow> None
      | Some st' \<Rightarrow> processImports n ops disk baseDir np rel refs st')"
  using assms
  by (simp add: Let_def logged_def firstAttempt_def secondAttempt_def)

lemma processImports_found:
  assumes "access disk (firstAttempt ops np importRef)"
  shows "processImports n ops disk baseDir np rel (importRef # refs) st =
     (case processFile n ops disk baseDir (firstAttempt ops np importRef)
             (st\<lparr>events := events st @ [Access (firstAttempt ops np importRef)]\<rparr>) of
        None \<Rightarrow> None
      | Some st' \<Rightarrow> processImports n ops disk baseDir np rel refs st')"
  using assms
  by (simp add: Let_def logged_def firstAttempt_def)

lemma processImports_all_abandoned:
  assumes "\<forall>importRef \<in> set refs.
      \<not> access disk (firstAttempt ops np importRef)
      \<and> \<not> access disk (secondAttempt ops np importRef)"
  shows "processImports n ops disk baseDir np rel refs st =
     Some (st\<lparr>events := events st @ concat (map (abandoned ops np rel) refs)\<rparr>)"
  using assms
proof (induction refs arbitrary: st)
  case Nil
  show ?case by simp
next
  case (Cons importRef refs)
  then show ?case
    by (simp add: processImports_abandon del: processImports.simps)
qed

lemma processFile_all_abandoned:
  assumes "resolve ops filePath \<notin> set (processed st)"
    and "readFile disk (resolve ops filePath) = Some content"
    and "\<forall>importRef \<in> set (importRefs content).
      \<not> access disk (firstAttempt ops (resolve ops filePath) importRef)
      \<and> \<not> access disk (secondAttempt ops (resolve ops filePath) importRef)"
  shows "processFile (Suc n) ops disk baseDir filePath st =
     Some (st\<lparr>processed := resolve ops filePath # processed st,
              fs := AList.update (relative ops baseDir (resolve ops filePath)) content (fs st),
              events := events st @ concat (map
                (abandoned ops (resolve ops filePath) (relative ops baseDir (resolve ops filePath)))
                (importRefs content))\<rparr>)"
  using assms
  by (simp add: Let_def processImports_all_abandoned del: processImports.simps)

lemma buildFileSystem_entry_abandoned:
  assumes "readFile disk (resolve ops entryPath) = Some content"
    and "\<forall>importRef \<in> set (importRefs content).
      \<not> access disk (firstAttempt ops (resolve ops entryPath) importRef)
      \<and> \<not> access disk (secondAttempt ops (resolve ops entryPath) importRef)"
  shows "buildFileSystem (Suc n) ops disk entryPath =
     Some \<lparr>fs = [(relative ops (dirname ops entryPath) (resolve ops entryPath), content)],
            processed = [resolve ops entryPath],
            events = concat (map
              (abandoned ops (resolve ops entryPath)
                 (relative ops (dirname ops entryPath) (resolve ops entryPath)))
              (importRefs content))\<rparr>"
  using assms
  by (simp add: buildFileSystem_def processFile_all_abandoned del: processFile.simps)

lemma buildFileSystem_nested_abandoned:
  assumes rd: "readFile disk (resolve ops entryPath) = Some content"
    and refs: "importRefs content = [importRef]"
    and acc: "access disk (firstAttempt ops (resolve ops entryPath) importRef)"
    and new: "resolve ops (firstAttempt ops (resolve ops entryPath) importRef)
        \<noteq> resolve ops entryPath"
    and rd': "readFile disk (resolve ops (firstAttempt ops (resolve ops entryPath) importRef))
        = Some imported"
    and miss: "\<forall>r \<in> set (importRefs imported).
      \<not> access disk
          (firstAttempt ops (resolve ops (firstAttempt ops (resolve ops entryPath) importRef)) r)
      \<and> \<not> access disk
          (secondAttempt ops (resolve ops (firstAttempt ops (resolve ops entryPath) importRef)) r)"
  shows "buildFileSystem (Suc (Suc n)) ops disk entryPath =
     Some \<lparr>fs = AList.update
              (relative ops (dirname ops entryPath)
                 (resolve ops (firstAttempt ops (resolve ops entryPath) importRef)))
              imported
              [(relative ops (dirname ops entryPath) (resolve ops entryPath), content)],
            processed = [resolve ops (firstAttempt ops (resolve ops entryPath) importRef),
                         resolve ops entryPath],
            events = Access (firstAttempt ops (resolve ops entryPath) importRef)
              # concat (map
                  (abandoned ops (resolve ops (firstAttempt ops (resolve ops entryPath) importRef))
                     (relative ops (dirname ops entryPath)
                        (resolve ops (firstAttempt ops (resolve ops entryPath) importRef))))
                  (importRefs imported))\<rparr>"
proof -
  let ?np = "resolve ops entryPath"
  let ?base = "dirname ops entryPath"
  let ?imp = "firstAttempt ops ?np importRef"
  let ?st1 = "\<lparr>fs = [(relative ops ?base ?np, content)], processed = [?np],
               events = [Access ?imp]\<rparr>"
  have inner: "processFile (Suc n) ops disk ?base ?imp ?st1 =
      Some (?st1\<lparr>processed := resolve ops ?imp # processed ?st1,
                fs := AList.update (relative ops ?base (resolve ops ?imp)) imported (fs ?st1),
                events := events ?st1 @ concat (map
                  (abandoned ops (resolve ops ?imp) (relative ops ?base (resolve ops ?imp)))
                  (importRefs imported))\<rparr>)"
    by (rule processFile_all_abandoned) (use new rd' miss in simp_all)
  have "buildFileSystem (Suc (Suc n)) ops disk entryPath =
      processImports (Suc n) ops disk ?base ?np (relative ops ?base ?np) [importRef]
        \<lparr>fs = [(relative ops ?base ?np, content)], processed = [?np], events = []\<rparr>"
    by (simp add: buildFileSystem_def Let_def rd refs del: processImports.simps)
  also have "\<dots> = (case processFile (Suc n) ops disk ?base ?imp ?st1 of
        None \<Rightarrow> None
      | Some st' \<Rightarrow> processImports (Suc n) ops disk ?base ?np (relative ops ?base ?np) [] st')"
    by (subst processImports_found [OF acc]) simp
  finally show ?thesis
    by (simp add: inner del: processFile.simps)
qed

text \<open>
  C4, as stated: a reference that does not resolve relative to the directory of the
  referencing file is retried against a root-relative path. It is not: \<open>/r/sub/x.d2\<close>
  imports \<open>lib/y\<close>, the file \<open>/r/lib/y.d2\<close> exists under the root \<open>/r\<close>, and the resolver
  tries \<open>/r/sub/lib/y.d2\<close> and \<open>/r/sub/lib/y\<close> only, warns, and leaves the file out.
\<close>

theorem buildFileSystem_retry_counterexample:
  "buildFileSystem 3 plainPaths disk_nested ''/r/main.d2'' =
     Some \<lparr>fs = [(''main.d2'', ''...@sub/x''), (''sub/x.d2'', ''...@lib/y'')],
            processed = [''/r/sub/x.d2'', ''/r/main.d2''],
            events = [Access ''/r/sub/x.d2'', Access ''/r/sub/lib/y.d2'',
                      Access ''/r/sub/lib/y'', ImportNotFound ''lib/y'' ''sub/x.d2'']\<rparr>
   \<and> importPathOf plainPaths (dirname plainPaths ''/r/main.d2'') ''lib/y'' = ''/r/lib/y.d2''
   \<and> access disk_nested ''/r/lib/y.d2''
   \<and> readFile disk_nested ''/r/lib/y.d2'' = Some ''y: leaf''"
  by code_simp

text \<open>
  The second attempt is made in the directory of the importing file: \<open>/r/sub/x.d2\<close> imports
  \<open>y.txt\<close>, and \<open>/r/sub/y.txt\<close> is found and read after \<open>/r/sub/y.txt.d2\<close> is not.
\<close>

lemma buildFileSystem_retry_example:
  "buildFileSystem 3 plainPaths disk_retry ''/r/main.d2'' =
     Some \<lparr>fs = [(''main.d2'', ''...@sub/x''), (''sub/x.d2'', ''...@y.txt''),
                  (''sub/y.txt'', ''y: leaf'')],
            processed = [''/r/sub/y.txt'', ''/r/sub/x.d2'', ''/r/main.d2''],
            events = [Access ''/r/sub/x.d2'', Access ''/r/sub/y.txt.d2'',
                      Access ''/r/sub/y.txt'']\<rparr>"
  by code_simp

text \<open>
  C4, amended: during \<open>buildFileSystem\<close>, for a reference of any file, whatever its
  directory and whatever the root: when the path computed relative to the referencing
  file's directory with the default extension appended is not accessible, the reference is
  retried exactly once, at the path in the same directory without the appended extension.
  If that path is accessible its file is processed; if it is not, the reference is
  abandoned with a warning and the traversal goes on with the next reference. When the
  first path is accessible its file is processed and nothing is retried. So a file all of
  whose references fail both ways adds itself alone to the file set, with two attempts in
  its own directory and one warning for each reference; an entry file of that kind yields,
  for every positive bound on the depth, a file set with the entry file alone and no
  exception; and an entry file whose single import is found, and whose imported file has
  only references that fail both ways in the imported file's directory, yields those two
  files.
\<close>

theorem buildFileSystem_retry_same_directory:
  "(\<not> access disk (firstAttempt ops np importRef)
      \<and> \<not> access disk (secondAttempt ops np importRef) \<longrightarrow>
    processImports n ops disk baseDir np rel (importRef # refs) st =
      processImports n ops disk baseDir np rel refs
        (st\<lparr>events := events st @ abandoned ops np rel importRef\<rparr>))
   \<and> (\<not> access disk (firstAttempt ops np importRef)
      \<and> access disk (secondAttempt ops np importRef) \<longrightarrow>
    processImports n ops disk baseDir np rel (importRef # refs) st =
      (case processFile n ops disk baseDir (secondAttempt ops np importRef)
              (st\<lparr>events := events st @ [Access (firstAttempt ops np importRef),
                                          Access (secondAttempt ops np importRef)]\<rparr>) of
         None \<Rightarrow> None
       | Some st' \<Rightarrow> processImports n ops disk baseDir np rel refs st'))
   \<and> (access disk (firstAttempt ops np importRef) \<longrightarrow>
    processImports n ops disk baseDir np rel (importRef # refs) st =
      (case processFile n ops disk baseDir (firstAttempt ops np importRef)
              (st\<lparr>events := events st @ [Access (firstAttempt ops np importRef)]\<rparr>) of
         None \<Rightarrow> None
       | Some st' \<Rightarrow> processImports n ops disk baseDir np rel refs st'))
   \<and> (resolve ops filePath \<notin> set (processed st)
      \<and> readFile disk (resolve ops filePath) = Some content
      \<and> (\<forall>r \<in> set (importRefs content).
            \<not> access disk (firstAttempt ops (resolve ops filePath) r)
            \<and> \<not> access disk (secondAttempt ops (resolve ops filePath) r)) \<longrightarrow>
    processFile (Suc n) ops disk baseDir filePath st =
      Some (st\<lparr>processed := resolve ops filePath # processed st,
               fs := AList.update (relative ops baseDir (resolve ops filePath)) content (fs st),
               events := events st @ concat (map
                 (abandoned ops (resolve ops filePath)
                    (relative ops baseDir (resolve ops filePath)))
                 (importRefs content))\<rparr>))
   \<and> (readFile disk (resolve ops entryPath) = Some content
      \<and> (\<forall>r \<in> set (importRefs content).
            \<not> access disk (firstAttempt ops (resolve ops entryPath) r)
            \<and> \<not> access disk (secondAttempt ops (resolve ops entryPath) r)) \<longrightarrow>
    buildFileSystem (Suc n) ops disk entryPath =
      Some \<lparr>fs = [(relative ops (dirname ops entryPath) (resolve ops entryPath), content)],
             processed = [resolve ops entryPath],
             events = concat (map
               (abandoned ops (resolve ops entryPath)
                  (relative ops (dirname ops entryPath) (resolve ops entryPath)))
               (importRefs content))\<rparr>)
   \<and> (readFile disk (resolve ops entryPath) = Some content
      \<and> importRefs content = [importRef]
      \<and> access disk (firstAttempt ops (resolve ops entryPath) importRef)
      \<and> resolve ops (firstAttempt ops (resolve ops entryPath) importRef) \<noteq> resolve ops entryPath
      \<and> readFile disk (resolve ops (firstAttempt ops (resolve ops entryPath) importRef))
          = Some imported
      \<and> (\<forall>r \<in> set (importRefs imported).
            \<not> access disk
                (firstAttempt ops
                   (resolve ops (firstAttempt ops (resolve ops entryPath) importRef)) r)
            \<and> \<not> access disk
                (secondAttempt ops
                   (resolve ops (firstAttempt ops (resolve ops entryPath) importRef)) r)) \<longrightarrow>
    buildFileSystem (Suc (Suc n)) ops disk entryPath =
      Some \<lparr>fs = AList.update
               (relative ops (dirname ops entryPath)
                  (resolve ops (firstAttempt ops (resolve ops entryPath) importRef)))
               imported
               [(relative ops (dirname ops entryPath) (resolve ops entryPath), content)],
             processed = [resolve ops (firstAttempt ops (resolve ops entryPath) importRef),
                          resolve ops entryPath],
             events = Access (firstAttempt ops (resolve ops entryPath) importRef)
               # concat (map
                   (abandoned ops
                      (resolve ops (firstAttempt ops (resolve ops entryPath) importRef))
                      (relative ops (dirname ops entryPath)
                         (resolve ops (firstAttempt ops (resolve ops entryPath) importRef))))
                   (importRefs imported))\<rparr>)"
proof (intro conjI impI)
  assume "\<not> access disk (firstAttempt ops np importRef)
      \<and> \<not> access disk (secondAttempt ops np importRef)"
  then show "processImports n ops disk baseDir np rel (importRef # refs) st =
      processImports n ops disk baseDir np rel refs
        (st\<lparr>events := events st @ abandoned ops np rel importRef\<rparr>)"
    by (intro processImports_abandon) simp_all
next
  assume "\<not> access disk (firstAttempt ops np importRef)
      \<and> access disk (secondAttempt ops np importRef)"
  then show "processImports n ops disk baseDir np rel (importRef # refs) st =
      (case processFile n ops disk baseDir (secondAttempt ops np importRef)
              (st\<lparr>events := events st @ [Access (firstAttempt ops np importRef),
                                          Access (secondAttempt ops np importRef)]\<rparr>) of
         None \<Rightarrow> None
       | Some st' \<Rightarrow> processImports n ops disk baseDir np rel refs st')"
    by (intro processImports_retry) simp_all
next
  assume "access disk (firstAttempt ops np importRef)"
  then show "processImports n ops disk baseDir np rel (importRef # refs) st =
      (case processFile n ops disk baseDir (firstAttempt ops np importRef)
              (st\<lparr>events := events st @ [Access (firstAttempt ops np importRef)]\<rparr>) of
         None \<Rightarrow> None
       | Some st' \<Rightarrow> processImports n ops disk baseDir np rel refs st')"
    by (rule processImports_found)
next
  assume "resolve ops filePath \<notin> set (processed st)
      \<and> readFile disk (resolve ops filePath) = Some content
      \<and> (\<forall>r \<in> set (importRefs content).
            \<not> access disk (firstAttempt ops (resolve ops filePath) r)
            \<and> \<not> access disk (secondAttempt ops (resolve ops filePath) r))"
  then show "processFile (Suc n) ops disk baseDir filePath st =
      Some (st\<lparr>processed := resolve ops filePath # processed st,
               fs := AList.update (relative ops baseDir (resolve ops filePath)) content (fs st),
               events := events st @ concat (map
                 (abandoned ops (resolve ops filePath)
                    (relative ops baseDir (resolve ops filePath)))
                 (importRefs content))\<rparr>)"
    by (intro processFile_all_abandoned) simp_all
next
  assume "readFile disk (resolve ops entryPath) = Some content
      \<and> (\<forall>r \<in> set (importRefs content).
            \<not> access disk (firstAttempt ops (resolve ops entryPath) r)
            \<and> \<not> access disk (secondAttempt ops (resolve ops entryPath) r))"
  then show "buildFileSystem (Suc n) ops disk entryPath =
      Some \<lparr>fs = [(relative ops (dirname ops entryPath) (resolve ops entryPath), content)],
             processed = [resolve ops entryPath],
             events = concat (map
               (abandoned ops (resolve ops entryPath)
                  (relative ops (dirname ops entryPath) (resolve ops entryPath)))
               (importRefs content))\<rparr>"
    by (intro buildFileSystem_entry_abandoned) simp_all
next
  assume "readFile disk (resolve ops entryPath) = Some content
      \<and> importRefs content = [importRef]
      \<and> access disk (firstAttempt ops (resolve ops entryPath) importRef)
      \<and> resolve ops (firstAttempt ops (resolve ops entryPath) importRef) \<noteq> resolve ops entryPath
      \<and> readFile disk (resolve ops (firstAttempt ops (resolve ops entryPath) importRef))
          = Some imported
      \<and> (\<forall>r \<in> set (importRefs imported).
            \<not> access disk
                (firstAttempt ops
                   (resolve ops (firstAttempt ops (resolve ops entryPath) importRef)) r)
            \<and> \<not> access disk
                (secondAttempt ops
                   (resolve ops (firstAttempt ops (resolve ops entryPath) importRef)) r))"
  then show "buildFileSystem (Suc (Suc n)) ops disk entryPath =
      Some \<lparr>fs = AList.update
               (relative ops (dirname ops entryPath)
                  (resolve ops (firstAttempt ops (resolve ops entryPath) importRef)))
               imported
               [(relative ops (dirname ops entryPath) (resolve ops entryPath), content)],
             processed = [resolve ops (firstAttempt ops (resolve ops entryPath) importRef),
                          resolve ops entryPath],
             events = Access (firstAttempt ops (resolve ops entryPath) importRef)
               # concat (map
                   (abandoned ops
                      (resolve ops (firstAttempt ops (resolve ops entryPath) importRef))
                      (relative ops (dirname ops entryPath)
                         (resolve ops (firstAttempt ops (resolve ops entryPath) importRef))))
                   (importRefs imported))\<rparr>"
    by (intro buildFileSystem_nested_abandoned) simp_all
qed

theorem buildFileSystem_retry_same_directory_witness:
  "processImports 0 plainPaths disk_nested ''/r'' ''/r/sub/x.d2'' ''sub/x.d2'' [''lib/y'']
       (state_x ''...@lib/y'') =
     Some \<lparr>fs = [(''main.d2'', ''...@sub/x''), (''sub/x.d2'', ''...@lib/y'')],
            processed = [''/r/sub/x.d2'', ''/r/main.d2''],
            events = [Access ''/r/sub/x.d2'', Access ''/r/sub/lib/y.d2'',
                      Access ''/r/sub/lib/y'', ImportNotFound ''lib/y'' ''sub/x.d2'']\<rparr>
   \<and> access disk_nested (importPathOf plainPaths ''/r'' ''lib/y'')
   \<and> processImports (Suc 0) plainPaths disk_retry ''/r'' ''/r/sub/x.d2'' ''sub/x.d2'' [''y.txt'']
       (state_x ''...@y.txt'') =
     Some \<lparr>fs = [(''main.d2'', ''...@sub/x''), (''sub/x.d2'', ''...@y.txt''),
                  (''sub/y.txt'', ''y: leaf'')],
            processed = [''/r/sub/y.txt'', ''/r/sub/x.d2'', ''/r/main.d2''],
            events = [Access ''/r/sub/x.d2'', Access ''/r/sub/y.txt.d2'',
                      Access ''/r/sub/y.txt'']\<rparr>
   \<and> processImports (Suc 0) plainPaths disk_nested ''/r'' ''/r/main.d2'' ''main.d2''
       [''sub/x'']
       \<lparr>fs = [(''main.d2'', ''...@sub/x'')], processed = [''/r/main.d2''], events = []\<rparr> =
     Some \<lparr>fs = [(''main.d2'', ''...@sub/x''), (''sub/x.d2'', ''...@lib/y'')],
            processed = [''/r/sub/x.d2'', ''/r/main.d2''],
            events = [Access ''/r/sub/x.d2'', Access ''/r/sub/lib/y.d2'',
                      Access ''/r/sub/lib/y'', ImportNotFound ''lib/y'' ''sub/x.d2'']\<rparr>
   \<and> processFile (Suc 0) plainPaths disk_nested ''/r'' ''/r/sub/x.d2'' state_main =
     Some \<lparr>fs = [(''main.d2'', ''...@sub/x''), (''sub/x.d2'', ''...@lib/y'')],
            processed = [''/r/sub/x.d2'', ''/r/main.d2''],
            events = [Access ''/r/sub/x.d2'', Access ''/r/sub/lib/y.d2'',
                      Access ''/r/sub/lib/y'', ImportNotFound ''lib/y'' ''sub/x.d2'']\<rparr>
   \<and> buildFileSystem (Suc 0) plainPaths disk_single ''/r/a.d2'' =
     Some \<lparr>fs = [(''a.d2'', ''...@b'')], processed = [''/r/a.d2''],
            events = [Access ''/r/b.d2'', Access ''/r/b'', ImportNotFound ''b'' ''a.d2'']\<rparr>
   \<and> buildFileSystem (Suc (Suc 0)) plainPaths disk_nested ''/r/main.d2'' =
     Some \<lparr>fs = [(''main.d2'', ''...@sub/x''), (''sub/x.d2'', ''...@lib/y'')],
            processed = [''/r/sub/x.d2'', ''/r/main.d2''],
            events = [Access ''/r/sub/x.d2'', Access ''/r/sub/lib/y.d2'',
                      Access ''/r/sub/lib/y'', ImportNotFound ''lib/y'' ''sub/x.d2'']\<rparr>"
proof -
  have refs_b: "importRefs ''...@b'' = [''b'']"
    by code_simp
  have refs_x: "importRefs ''...@sub/x'' = [''sub/x'']"
    by code_simp
  have refs_y: "importRefs ''...@lib/y'' = [''lib/y'']"
    by code_simp
  have h1: "\<not> access disk_nested (firstAttempt plainPaths ''/r/sub/x.d2'' ''lib/y'')
      \<and> \<not> access disk_nested (secondAttempt plainPaths ''/r/sub/x.d2'' ''lib/y'')"
    by code_simp
  have c1: "processImports 0 plainPaths disk_nested ''/r'' ''/r/sub/x.d2'' ''sub/x.d2''
        [''lib/y''] (state_x ''...@lib/y'') =
      Some \<lparr>fs = [(''main.d2'', ''...@sub/x''), (''sub/x.d2'', ''...@lib/y'')],
             processed = [''/r/sub/x.d2'', ''/r/main.d2''],
             events = [Access ''/r/sub/x.d2'', Access ''/r/sub/lib/y.d2'',
                       Access ''/r/sub/lib/y'', ImportNotFound ''lib/y'' ''sub/x.d2'']\<rparr>"
    apply (subst buildFileSystem_retry_same_directory
      [where disk = disk_nested and ops = plainPaths and np = "''/r/sub/x.d2''"
         and importRef = "''lib/y''", THEN conjunct1, THEN mp, OF h1])
    by code_simp
  have root: "access disk_nested (importPathOf plainPaths ''/r'' ''lib/y'')"
    by code_simp
  have h2: "\<not> access disk_retry (firstAttempt plainPaths ''/r/sub/x.d2'' ''y.txt'')
      \<and> access disk_retry (secondAttempt plainPaths ''/r/sub/x.d2'' ''y.txt'')"
    by code_simp
  have c2: "processImports (Suc 0) plainPaths disk_retry ''/r'' ''/r/sub/x.d2'' ''sub/x.d2''
        [''y.txt''] (state_x ''...@y.txt'') =
      Some \<lparr>fs = [(''main.d2'', ''...@sub/x''), (''sub/x.d2'', ''...@y.txt''),
                   (''sub/y.txt'', ''y: leaf'')],
             processed = [''/r/sub/y.txt'', ''/r/sub/x.d2'', ''/r/main.d2''],
             events = [Access ''/r/sub/x.d2'', Access ''/r/sub/y.txt.d2'',
                       Access ''/r/sub/y.txt'']\<rparr>"
    apply (subst buildFileSystem_retry_same_directory
      [where disk = disk_retry and ops = plainPaths and np = "''/r/sub/x.d2''"
         and importRef = "''y.txt''", THEN conjunct2, THEN conjunct1, THEN mp, OF h2])
    by code_simp
  have h3: "access disk_nested (firstAttempt plainPaths ''/r/main.d2'' ''sub/x'')"
    by code_simp
  have c3: "processImports (Suc 0) plainPaths disk_nested ''/r'' ''/r/main.d2'' ''main.d2''
        [''sub/x'']
        \<lparr>fs = [(''main.d2'', ''...@sub/x'')], processed = [''/r/main.d2''], events = []\<rparr> =
      Some \<lparr>fs = [(''main.d2'', ''...@sub/x''), (''sub/x.d2'', ''...@lib/y'')],
             processed = [''/r/sub/x.d2'', ''/r/main.d2''],
             events = [Access ''/r/sub/x.d2'', Access ''/r/sub/lib/y.d2'',
                       Access ''/r/sub/lib/y'', ImportNotFound ''lib/y'' ''sub/x.d2'']\<rparr>"
    apply (subst buildFileSystem_retry_same_directory
      [where disk = disk_nested and ops = plainPaths and np = "''/r/main.d2''"
         and importRef = "''sub/x''", THEN conjunct2, THEN conjunct2, THEN conjunct1, THEN mp, OF h3])
    by code_simp
  have h4: "resolve plainPaths ''/r/sub/x.d2'' \<notin> set (processed state_main)
      \<and> readFile disk_nested (resolve plainPaths ''/r/sub/x.d2'') = Some ''...@lib/y''
      \<and> (\<forall>r \<in> set (importRefs ''...@lib/y'').
            \<not> access disk_nested (firstAttempt plainPaths (resolve plainPaths ''/r/sub/x.d2'') r)
            \<and> \<not> access disk_nested
                  (secondAttempt plainPaths (resolve plainPaths ''/r/sub/x.d2'') r))"
    unfolding refs_y by code_simp
  have c4: "processFile (Suc 0) plainPaths disk_nested ''/r'' ''/r/sub/x.d2'' state_main =
      Some \<lparr>fs = [(''main.d2'', ''...@sub/x''), (''sub/x.d2'', ''...@lib/y'')],
             processed = [''/r/sub/x.d2'', ''/r/main.d2''],
             events = [Access ''/r/sub/x.d2'', Access ''/r/sub/lib/y.d2'',
                       Access ''/r/sub/lib/y'', ImportNotFound ''lib/y'' ''sub/x.d2'']\<rparr>"
    apply (subst buildFileSystem_retry_same_directory
      [where disk = disk_nested and ops = plainPaths and filePath = "''/r/sub/x.d2''"
         and st = state_main and content = "''...@lib/y''",
       THEN conjunct2, THEN conjunct2, THEN conjunct2, THEN conjunct1, THEN mp, OF h4])
    unfolding refs_y
    by code_simp
  have h5: "readFile disk_single (resolve plainPaths ''/r/a.d2'') = Some ''...@b''
      \<and> (\<forall>r \<in> set (importRefs ''...@b'').
            \<not> access disk_single (firstAttempt plainPaths (resolve plainPaths ''/r/a.d2'') r)
            \<and> \<not> access disk_single
                  (secondAttempt plainPaths (resolve plainPaths ''/r/a.d2'') r))"
    unfolding refs_b by code_simp
  have c5: "buildFileSystem (Suc 0) plainPaths disk_single ''/r/a.d2'' =
      Some \<lparr>fs = [(''a.d2'', ''...@b'')], processed = [''/r/a.d2''],
             events = [Access ''/r/b.d2'', Access ''/r/b'', ImportNotFound ''b'' ''a.d2'']\<rparr>"
    apply (subst buildFileSystem_retry_same_directory
      [where disk = disk_single and ops = plainPaths and entryPath = "''/r/a.d2''"
         and content = "''...@b''",
       THEN conjunct2, THEN conjunct2, THEN conjunct2, THEN conjunct2, THEN conjunct1,
       THEN mp, OF h5])
    unfolding refs_b
    by code_simp
  have h6: "readFile disk_nested (resolve plainPaths ''/r/main.d2'') = Some ''...@sub/x''
      \<and> importRefs ''...@sub/x'' = [''sub/x'']
      \<and> access disk_nested (firstAttempt plainPaths (resolve plainPaths ''/r/main.d2'') ''sub/x'')
      \<and> resolve plainPaths (firstAttempt plainPaths (resolve plainPaths ''/r/main.d2'') ''sub/x'')
          \<noteq> resolve plainPaths ''/r/main.d2''
      \<and> readFile disk_nested
           (resolve plainPaths
              (firstAttempt plainPaths (resolve plainPaths ''/r/main.d2'') ''sub/x''))
          = Some ''...@lib/y''
      \<and> (\<forall>r \<in> set (importRefs ''...@lib/y'').
            \<not> access disk_nested
                (firstAttempt plainPaths
                   (resolve plainPaths
                      (firstAttempt plainPaths (resolve plainPaths ''/r/main.d2'') ''sub/x'')) r)
            \<and> \<not> access disk_nested
                (secondAttempt plainPaths
                   (resolve plainPaths
                      (firstAttempt plainPaths (resolve plainPaths ''/r/main.d2'') ''sub/x'')) r))"
    unfolding refs_y refs_x by code_simp
  have c6: "buildFileSystem (Suc (Suc 0)) plainPaths disk_nested ''/r/main.d2'' =
      Some \<lparr>fs = [(''main.d2'', ''...@sub/x''), (''sub/x.d2'', ''...@lib/y'')],
             processed = [''/r/sub/x.d2'', ''/r/main.d2''],
             events = [Access ''/r/sub/x.d2'', Access ''/r/sub/lib/y.d2'',
                       Access ''/r/sub/lib/y'', ImportNotFound ''lib/y'' ''sub/x.d2'']\<rparr>"
    apply (subst buildFileSystem_retry_same_directory
      [where disk = disk_nested and ops = plainPaths and entryPath = "''/r/main.d2''"
         and content = "''...@sub/x''" and importRef = "''sub/x''"
         and imported = "''...@lib/y''",
       THEN conjunct2, THEN conjunct2, THEN conjunct2, THEN conjunct2, THEN conjunct2,
       THEN mp, OF h6])
    unfolding refs_y
    by code_simp
  from c1 root c2 c3 c4 c5 c6 show ?thesis
    by (intro conjI)
qed

subsection \<open>The resolver returns\<close>

text \<open>
  Every path that \<open>processFile\<close> goes into is new to \<open>processed\<close>, and it is the entry path
  or an accessible one. On a disk with finitely many accessible paths the depth of the
  recursion is therefore bounded, and a bound above the number of those paths is enough.
\<close>

lemma processed_logged [simp]: "processed (logged e st) = processed st"
  by (simp add: logged_def)

lemma card_Diff_insert_less:
  assumes "finite U" and "x \<in> U" and "x \<notin> S" and "card (U - S) < Suc n"
  shows "card (U - insert x S) < n"
proof -
  have "card ((U - S) - {x}) < card (U - S)"
    by (rule card_Diff1_less) (use assms in auto)
  moreover have "U - insert x S = (U - S) - {x}" by auto
  ultimately show ?thesis using assms(4) by simp
qed

lemma card_Diff_mono_processed:
  assumes "finite U" and "S \<subseteq> S'" and "card (U - S) < n"
  shows "card (U - S') < n"
proof -
  have "U - S' \<subseteq> U - S" using assms(2) by auto
  then have "card (U - S') \<le> card (U - S)"
    using assms(1) by (simp add: card_mono)
  with assms(3) show ?thesis by simp
qed

lemma resolver_fuel:
  assumes fin: "finite U" and acc: "\<And>p. access disk p \<Longrightarrow> resolve ops p \<in> U"
  shows "(\<forall>st filePath. resolve ops filePath \<in> U \<longrightarrow> card (U - set (processed st)) < n \<longrightarrow>
            (\<exists>st'. processFile n ops disk baseDir filePath st = Some st'
               \<and> set (processed st) \<subseteq> set (processed st')))
       \<and> (\<forall>st np rel refs. card (U - set (processed st)) < n \<longrightarrow>
            (\<exists>st'. processImports n ops disk baseDir np rel refs st = Some st'
               \<and> set (processed st) \<subseteq> set (processed st')))"
proof (induction n)
  case 0
  show ?case by simp
next
  case (Suc n)
  then have imps: "\<And>st np rel refs. card (U - set (processed st)) < n \<Longrightarrow>
      \<exists>st'. processImports n ops disk baseDir np rel refs st = Some st'
        \<and> set (processed st) \<subseteq> set (processed st')"
    by blast
  have fileStep: "\<exists>st'. processFile (Suc n) ops disk baseDir filePath st = Some st'
      \<and> set (processed st) \<subseteq> set (processed st')"
    if inU: "resolve ops filePath \<in> U" and c: "card (U - set (processed st)) < Suc n"
    for st filePath
  proof (cases "resolve ops filePath \<in> set (processed st)")
    case True
    then show ?thesis by simp
  next
    case False
    show ?thesis
    proof (cases "readFile disk (resolve ops filePath)")
      case None
      with False show ?thesis by (auto simp: Let_def)
    next
      case (Some content)
      let ?st2 = "st\<lparr>processed := resolve ops filePath # processed st,
          fs := AList.update (relative ops baseDir (resolve ops filePath)) content (fs st)\<rparr>"
      have "card (U - set (processed ?st2)) < n"
        using card_Diff_insert_less [OF fin inU False c] by simp
      from imps [OF this]
      obtain st' where "processImports n ops disk baseDir (resolve ops filePath)
            (relative ops baseDir (resolve ops filePath)) (importRefs content) ?st2 = Some st'"
        and "set (processed ?st2) \<subseteq> set (processed st')"
        by blast
      with False Some show ?thesis by (auto simp: Let_def)
    qed
  qed
  have loop: "\<exists>st'. processImports (Suc n) ops disk baseDir np rel refs st = Some st'
      \<and> set (processed st) \<subseteq> set (processed st')"
    if c: "card (U - set (processed st)) < Suc n" for st np rel refs
    using c
  proof (induction refs arbitrary: st)
    case Nil
    show ?case by simp
  next
    case (Cons importRef refs)
    let ?imp = "importPathOf ops (dirname ops np) importRef"
    let ?alt = "join ops (dirname ops np) importRef"
    have go: "\<exists>st'. (case processFile (Suc n) ops disk baseDir p st0 of
          None \<Rightarrow> None
        | Some st1 \<Rightarrow> processImports (Suc n) ops disk baseDir np rel refs st1) = Some st'
        \<and> set (processed st) \<subseteq> set (processed st')"
      if "access disk p" and "processed st0 = processed st" for p st0
    proof -
      have "resolve ops p \<in> U" using that(1) by (rule acc)
      moreover have "card (U - set (processed st0)) < Suc n"
        using Cons.prems that(2) by simp
      ultimately obtain st1 where f: "processFile (Suc n) ops disk baseDir p st0 = Some st1"
        and s1: "set (processed st0) \<subseteq> set (processed st1)"
        using fileStep by blast
      have "card (U - set (processed st1)) < Suc n"
        using card_Diff_mono_processed [OF fin s1] Cons.prems that(2) by simp
      then obtain st' where "processImports (Suc n) ops disk baseDir np rel refs st1 = Some st'"
        and "set (processed st1) \<subseteq> set (processed st')"
        using Cons.IH by blast
      with f s1 that(2) show ?thesis by auto
    qed
    show ?case
    proof (cases "access disk ?imp")
      case True
      with go [of ?imp "logged (Access ?imp) st"] show ?thesis
        by (simp add: Let_def del: processFile.simps)
    next
      case noimp: False
      show ?thesis
      proof (cases "access disk ?alt")
        case True
        with noimp go [of ?alt "logged (Access ?alt) (logged (Access ?imp) st)"] show ?thesis
          by (simp add: Let_def del: processFile.simps)
      next
        case False
        let ?st0 = "logged (ImportNotFound importRef rel)
            (logged (Access ?alt) (logged (Access ?imp) st))"
        have "card (U - set (processed ?st0)) < Suc n"
          using Cons.prems by simp
        then obtain st' where "processImports (Suc n) ops disk baseDir np rel refs ?st0 = Some st'"
          and "set (processed ?st0) \<subseteq> set (processed st')"
          using Cons.IH by blast
        with noimp False show ?thesis by (simp add: Let_def)
      qed
    qed
  qed
  from fileStep loop show ?case by blast
qed

lemma buildFileSystem_returns:
  assumes "finite {p. access disk p}"
    and "card (insert (resolve ops entryPath) (resolve ops ` {p. access disk p})) < n"
  shows "\<exists>st. buildFileSystem n ops disk entryPath = Some st"
proof -
  let ?U = "insert (resolve ops entryPath) (resolve ops ` {p. access disk p})"
  have fin: "finite ?U" using assms(1) by simp
  have acc: "\<And>p. access disk p \<Longrightarrow> resolve ops p \<in> ?U" by auto
  have "card (?U - set (processed \<lparr>fs = [], processed = [], events = []\<rparr>)) < n"
    using assms(2) by simp
  moreover have "resolve ops entryPath \<in> ?U" by simp
  ultimately show ?thesis
    using resolver_fuel [OF fin acc, where n = n and baseDir = "dirname ops entryPath"]
    unfolding buildFileSystem_def by blast
qed

section \<open>Properties of the export run\<close>

lemma renderTargets_error:
  "firstError (map renderTarget targets) = Some e
   \<Longrightarrow> renderTargets renderTarget targets svgMap = Inl e"
proof (induction targets arbitrary: svgMap)
  case Nil
  then show ?case by simp
next
  case (Cons target targets)
  then show ?case by (cases "renderTarget target") simp_all
qed

lemma renderTargets_ok:
  "firstError (map renderTarget targets) = None
   \<Longrightarrow> \<exists>svgMap'. renderTargets renderTarget targets svgMap = Inr svgMap'"
proof (induction targets arbitrary: svgMap)
  case Nil
  then show ?case by simp
next
  case (Cons target targets)
  then show ?case by (cases "renderTarget target") simp_all
qed

lemma main_after_imports:
  assumes "buildFileSystem n ops disk (inputPath args) = Some st"
  shows "\<exists>result written. main n ops disk world args = Some (result, written)
     \<and> (\<forall>e. compile world (fs st) (basename ops (inputPath args)) (options args) = Inl e
          \<longrightarrow> result = Inl e \<and> written = [])
     \<and> (\<forall>diagram ro e.
          compile world (fs st) (basename ops (inputPath args)) (options args) = Inr (diagram, ro)
          \<and> render world diagram ro '''' = Inl e
          \<longrightarrow> result = Inl e \<and> written = [])
     \<and> (\<forall>diagram ro rootSvg e.
          compile world (fs st) (basename ops (inputPath args)) (options args) = Inr (diagram, ro)
          \<and> render world diagram ro '''' = Inr rootSvg
          \<and> firstError (map (render world diagram ro) (flattenTargets (extractLayers diagram '''')))
              = Some e
          \<longrightarrow> result = Inl e \<and> written = [])
     \<and> (written = [] \<longleftrightarrow> (\<exists>e. result = Inl e))
     \<and> (written \<noteq> [] \<longrightarrow>
          (\<exists>diagram ro rootSvg svgMap.
             compile world (fs st) (basename ops (inputPath args)) (options args)
               = Inr (diagram, ro)
             \<and> render world diagram ro '''' = Inr rootSvg
             \<and> firstError (map (render world diagram ro)
                   (flattenTargets (extractLayers diagram ''''))) = None
             \<and> written = [(outputPath args,
                   generateHtml \<lparr>title = docTitle args, layers = extractLayers diagram '''',
                     svgs = svgMap\<rparr>)]))"
proof (cases "compile world (fs st) (basename ops (inputPath args)) (options args)")
  case (Inl e)
  with assms show ?thesis by (simp add: main_def)
next
  case (Inr compiled)
  obtain diagram ro where compiled: "compiled = (diagram, ro)"
    by (cases compiled)
  show ?thesis
  proof (cases "render world diagram ro ''''")
    case (Inl e)
    with assms Inr compiled show ?thesis by (simp add: main_def)
  next
    case root: (Inr rootSvg)
    let ?targets = "flattenTargets (extractLayers diagram '''')"
    show ?thesis
    proof (cases "firstError (map (render world diagram ro) ?targets)")
      case (Some e)
      then have "renderTargets (render world diagram ro) ?targets
          [('''', ensureSvgDimensions rootSvg)] = Inl e"
        by (rule renderTargets_error)
      with assms Inr compiled root Some show ?thesis by (simp add: main_def)
    next
      case None
      then obtain svgMap where svgMap: "renderTargets (render world diagram ro) ?targets
          [('''', ensureSvgDimensions rootSvg)] = Inr svgMap"
        using renderTargets_ok by blast
      show ?thesis
      proof (cases "writeFile world (outputPath args)
          (generateHtml \<lparr>title = docTitle args, layers = extractLayers diagram '''',
             svgs = svgMap\<rparr>)")
        case wrote: None
        with assms Inr compiled root None svgMap show ?thesis
          by (auto simp: main_def)
      next
        case (Some e)
        with assms Inr compiled root None svgMap show ?thesis
          by (simp add: main_def)
      qed
    qed
  qed
qed

text \<open>
  C9. On a disk with finitely many accessible paths, and with a bound on the depth of the
  import resolution above their number, \<open>main\<close> returns, and: if the compilation raises
  an error, or the rendering of the root, or the rendering of a flattened target (the first
  one that fails, in order), \<open>main\<close> ends with that error and has written no file; it ends
  with an error whenever it has written no file; and when it has written, it has written
  the output file alone, after the compilation, the rendering of the root and the
  rendering of every target have succeeded.
\<close>

theorem main_no_partial_output:
  assumes "finite {p. access disk p}"
    and "card (insert (resolve ops (inputPath args)) (resolve ops ` {p. access disk p})) < n"
  shows "\<exists>st result written.
       buildFileSystem n ops disk (inputPath args) = Some st
     \<and> main n ops disk world args = Some (result, written)
     \<and> (\<forall>e. compile world (fs st) (basename ops (inputPath args)) (options args) = Inl e
          \<longrightarrow> result = Inl e \<and> written = [])
     \<and> (\<forall>diagram ro e.
          compile world (fs st) (basename ops (inputPath args)) (options args) = Inr (diagram, ro)
          \<and> render world diagram ro '''' = Inl e
          \<longrightarrow> result = Inl e \<and> written = [])
     \<and> (\<forall>diagram ro rootSvg e.
          compile world (fs st) (basename ops (inputPath args)) (options args) = Inr (diagram, ro)
          \<and> render world diagram ro '''' = Inr rootSvg
          \<and> firstError (map (render world diagram ro) (flattenTargets (extractLayers diagram '''')))
              = Some e
          \<longrightarrow> result = Inl e \<and> written = [])
     \<and> (written = [] \<longleftrightarrow> (\<exists>e. result = Inl e))
     \<and> (written \<noteq> [] \<longrightarrow>
          (\<exists>diagram ro rootSvg svgMap.
             compile world (fs st) (basename ops (inputPath args)) (options args)
               = Inr (diagram, ro)
             \<and> render world diagram ro '''' = Inr rootSvg
             \<and> firstError (map (render world diagram ro)
                   (flattenTargets (extractLayers diagram ''''))) = None
             \<and> written = [(outputPath args,
                   generateHtml \<lparr>title = docTitle args, layers = extractLayers diagram '''',
                     svgs = svgMap\<rparr>)]))"
proof -
  from buildFileSystem_returns [OF assms]
  obtain st where st: "buildFileSystem n ops disk (inputPath args) = Some st" ..
  from main_after_imports [OF st, of world] st show ?thesis
    by blast
qed

lemma flattenTargets_board_root:
  "flattenTargets (extractLayers board_root '''') = [''layers.auth'', ''layers.auth.timeout'']"
  by (simp add: extractLayers_board_root flattenTargets_def)

theorem main_no_partial_output_witness:
  "main 2 plainPaths disk_single world_failing args_sample = Some (Inl ''render failed'', [])"
proof -
  have acc: "{p. access disk_single p} = {''/r/a.d2''}"
    by (auto simp: disk_single_def)
  have fin: "finite {p. access disk_single p}"
    by (simp add: acc)
  have bound: "card (insert (resolve plainPaths (inputPath args_sample))
      (resolve plainPaths ` {p. access disk_single p})) < 2"
    by (simp add: acc plainPaths_def args_sample_def)
  have c: "compile world_failing files (basename plainPaths (inputPath args_sample))
      (options args_sample) = Inr (board_root, ())" for files
    by (simp add: world_failing_def)
  have r: "render world_failing board_root () '''' = Inr svg_sample"
    by (simp add: world_failing_def)
  have f: "firstError (map (render world_failing board_root ())
      (flattenTargets (extractLayers board_root ''''))) = Some ''render failed''"
    by (simp add: flattenTargets_board_root world_failing_def)
  from main_no_partial_output [OF fin bound, of world_failing] c r f
  show ?thesis by blast
qed

end
